theory Spec2Isabelle
  imports
    Main
    "HOL-Library.Char_ord"
    "HOL-Library.List_Lexorder"
    "HOL-Library.Sublist"
    "HOL-Library.Multiset"
begin

section \<open>Python strings\<close>

text \<open>
  A Python \<^verbatim>\<open>str\<close> is modelled as a \<^typ>\<open>string\<close>, one \<^typ>\<open>char\<close> per character.
  The names this program handles (AWS service names, limit names, configuration text) are
  ASCII; \<^verbatim>\<open>str.lower()\<close> is modelled on ASCII, where it maps \<^verbatim>\<open>A\<close>..\<^verbatim>\<open>Z\<close> to
  \<^verbatim>\<open>a\<close>..\<^verbatim>\<open>z\<close> and leaves every other character alone.
\<close>

definition lower_char :: "char \<Rightarrow> char" where
  "lower_char c =
     (let n = (of_char c :: nat) in if 65 \<le> n \<and> n \<le> 90 then char_of (n + 32) else c)"

definition lower :: "string \<Rightarrow> string" where
  "lower s = map lower_char s"

text \<open>\<^verbatim>\<open>sep.join(xs)\<close>.\<close>

fun join :: "string \<Rightarrow> string list \<Rightarrow> string" where
  "join sep [] = []"
| "join sep [x] = x"
| "join sep (x # y # ys) = x @ sep @ join sep (y # ys)"

text \<open>
  \<^verbatim>\<open>s.split(sep)\<close> for a separator of one character: the result is never empty, and two
  separators in a row (or one at either end) give an empty piece.
\<close>

fun split_on :: "char \<Rightarrow> string \<Rightarrow> string list" where
  "split_on sep [] = [[]]"
| "split_on sep (c # cs) =
     (let r = split_on sep cs in if c = sep then [] # r else (c # hd r) # tl r)"

text \<open>\<^verbatim>\<open>sub in s\<close> for strings: \<^verbatim>\<open>sub\<close> occurs in \<^verbatim>\<open>s\<close> as a contiguous piece.\<close>

fun str_contains :: "string \<Rightarrow> string \<Rightarrow> bool" where
  "str_contains sub [] = (sub = [])"
| "str_contains sub (c # cs) = (prefix sub (c # cs) \<or> str_contains sub cs)"

text \<open>
  \<^verbatim>\<open>str.maketrans(x, y, z)\<close> builds a table: the i-th character of \<^verbatim>\<open>x\<close> goes to the
  i-th of \<^verbatim>\<open>y\<close>, then every character of \<^verbatim>\<open>z\<close> goes to \<^verbatim>\<open>None\<close> (a later entry
  replaces an earlier one). \<^verbatim>\<open>s.translate(table)\<close> reads \<^verbatim>\<open>s\<close> once from the left:
  a character absent from the table is kept, one mapped to \<^verbatim>\<open>None\<close> is dropped, any
  other is replaced.
\<close>

definition maketrans :: "string \<Rightarrow> string \<Rightarrow> string \<Rightarrow> (char \<rightharpoonup> char option)" where
  "maketrans x y z = map_of (rev (zip x (map Some y) @ map (\<lambda>c. (c, None)) z))"

definition translate :: "(char \<rightharpoonup> char option) \<Rightarrow> string \<Rightarrow> string" where
  "translate table s =
     concat (map (\<lambda>c. case table c of None \<Rightarrow> [c] | Some None \<Rightarrow> [] | Some (Some d) \<Rightarrow> [d]) s)"

section \<open>Path normalization\<close>

text \<open>Line 24: \<^verbatim>\<open>trantab = str.maketrans(' -.', '___', '()')\<close>.\<close>

definition trantab :: "char \<rightharpoonup> char option" where
  "trantab = maketrans '' -.'' ''___'' ''()''"

text \<open>
  Lines 95 and 119: \<^verbatim>\<open>path.lower().translate(trantab)\<close>, the expression that both
  \<^verbatim>\<open>gauge\<close> and \<^verbatim>\<open>update_ec2_on_demand\<close> apply to a dotted path.
\<close>

definition normalize_path :: "string \<Rightarrow> string" where
  "normalize_path path = translate trantab (lower path)"

text \<open>
  Lines 80 and 119 together (and lines 94-95 with the service \<^verbatim>\<open>ec2\<close>): the path of a
  limit is \<^verbatim>\<open>'.'.join([service, limit_name])\<close>, normalized.
\<close>

definition normalize_name :: "string \<Rightarrow> string \<Rightarrow> string" where
  "normalize_name service limit_name = normalize_path (join ''.'' [service, limit_name])"

text \<open>
  The specification's wording of the same function, for comparison: join with a dot,
  lowercase, then one pass in which space, dash and dot become an underscore and the two
  parentheses disappear.
\<close>

definition spec_translit :: "char \<Rightarrow> string" where
  "spec_translit c =
     (if c = CHR '' '' \<or> c = CHR ''-'' \<or> c = CHR ''.'' then ''_''
      else if c = CHR ''('' \<or> c = CHR '')'' then []
      else [c])"

definition spec_normalize :: "string \<Rightarrow> string \<Rightarrow> string" where
  "spec_normalize service limit_name =
     concat (map spec_translit (map lower_char (service @ ''.'' @ limit_name)))"

section \<open>Exceptions and the Python built-ins that raise them\<close>

text \<open>
  The exceptions of class \<^verbatim>\<open>Exception\<close> that occur in this program: the built-in ones
  its own code raises, and \<open>BackendError\<close> for whatever the usage-checking backend raises
  from \<^verbatim>\<open>find_usage\<close>. A function that can raise returns \<open>exn + 'a\<close>, with \<open>Inl\<close> the
  exception; one that mutates the gauges before it raises returns the exception (if any)
  together with the gauges as they are at that point.
\<close>

datatype exn = IndexError | ValueError | StopIteration | BackendError string

text \<open>
  Sequencing: the statement after one that raised is not executed, and the exception is
  the result.
\<close>

definition and_then :: "exn + 'a \<Rightarrow> ('a \<Rightarrow> exn + 'b) \<Rightarrow> exn + 'b" where
  "and_then r f = (case r of Inl e \<Rightarrow> Inl e | Inr x \<Rightarrow> f x)"

text \<open>\<^verbatim>\<open>xs[i]\<close> for an index \<^verbatim>\<open>i \<ge> 0\<close>.\<close>

definition getitem :: "'a list \<Rightarrow> nat \<Rightarrow> exn + 'a" where
  "getitem xs i = (if i < length xs then Inr (xs ! i) else Inl IndexError)"

text \<open>\<^verbatim>\<open>next(it)\<close> on a fresh generator that yields the elements of \<^verbatim>\<open>xs\<close>.\<close>

definition py_next :: "'a list \<Rightarrow> exn + 'a" where
  "py_next xs = (case xs of [] \<Rightarrow> Inl StopIteration | x # _ \<Rightarrow> Inr x)"

text \<open>
  \<^verbatim>\<open>int(s)\<close> on an ASCII string: optional whitespace around an optional sign followed by
  decimal digits, where single underscores may separate digits. Anything else is a
  \<^verbatim>\<open>ValueError\<close>. (The interpreter's configurable bound on the number of digits is not
  modelled.)
\<close>

definition is_space :: "char \<Rightarrow> bool" where
  "is_space c = (let n = (of_char c :: nat) in (9 \<le> n \<and> n \<le> 13) \<or> n = 32)"

definition is_digit :: "char \<Rightarrow> bool" where
  "is_digit c = (let n = (of_char c :: nat) in 48 \<le> n \<and> n \<le> 57)"

definition digit_val :: "char \<Rightarrow> nat" where
  "digit_val c = of_char c - 48"

definition strip :: "string \<Rightarrow> string" where
  "strip s = rev (dropWhile is_space (rev (dropWhile is_space s)))"

definition digits_val :: "string \<Rightarrow> nat" where
  "digits_val ds = foldl (\<lambda>a c. 10 * a + digit_val c) 0 ds"

fun split_sign :: "string \<Rightarrow> bool \<times> string" where
  "split_sign [] = (False, [])"
| "split_sign (c # r) =
     (if c = CHR ''-'' then (True, r) else if c = CHR ''+'' then (False, r) else (False, c # r))"

definition py_int :: "string \<Rightarrow> exn + int" where
  "py_int s =
     (let (neg, body) = split_sign (strip s);
          groups = split_on CHR ''_'' body
      in if list_all (\<lambda>g. g \<noteq> [] \<and> list_all is_digit g) groups
         then Inr ((if neg then - 1 else 1) * int (digits_val (concat groups)))
         else Inl ValueError)"

text \<open>
  The decimal numeral of an integer, as \<^verbatim>\<open>str(v)\<close> writes it. It is not part of the
  program: it says what "an integer after the equals sign" is in a well-formed override
  line.
\<close>

definition digit_char :: "nat \<Rightarrow> char" where
  "digit_char d = char_of (48 + d)"

fun digits :: "nat \<Rightarrow> string" where
  "digits n = (if n < 10 then [digit_char n] else digits (n div 10) @ [digit_char (n mod 10)])"

definition decimal :: "int \<Rightarrow> string" where
  "decimal v = (if v < 0 then CHR ''-'' # digits (nat (- v)) else digits (nat v))"

text \<open>
  The integer literals of \<^verbatim>\<open>int\<close>, as the language reference writes them, for
  comparison with \<open>py_int\<close>: whitespace, an optional sign, one or more groups of one or
  more digits joined by single underscores, whitespace. It is not part of the program.
\<close>

definition int_literal :: "string \<Rightarrow> bool" where
  "int_literal s \<longleftrightarrow>
     (\<exists>ws1 sg groups ws2.
        s = ws1 @ sg @ join ''_'' groups @ ws2 \<and>
        list_all is_space ws1 \<and> list_all is_space ws2 \<and>
        (sg = [] \<or> sg = ''+'' \<or> sg = ''-'') \<and>
        groups \<noteq> [] \<and> list_all (\<lambda>g. g \<noteq> [] \<and> list_all is_digit g) groups)"

section \<open>The metrics collaborator\<close>

text \<open>
  Modelled from the spec: the class \<^verbatim>\<open>Gauge\<close> of the metrics library
  (\<^verbatim>\<open>prometheus_client\<close>), which is not under src/. The specification gives its boundary:
  a gauge is created with a name and a list of label names, and
  \<^verbatim>\<open>handle.withLabels(values).set(number)\<close> stores a number under a tuple of label
  values, replacing what was stored there. A tuple of label values is written as the
  keyword arguments of the call, in the order of the source. The library accepts the
  keyword arguments only when their names are, up to order, the label names the gauge was
  created with; otherwise \<^verbatim>\<open>labels\<close> raises \<^verbatim>\<open>ValueError\<close> and nothing is stored.
\<close>

type_synonym label_values = "(string \<times> string) list"

record Gauge =
  gauge_name :: string
  labelnames :: "string list"
  samples :: "label_values \<rightharpoonup> int"

definition Gauge_new :: "string \<Rightarrow> string list \<Rightarrow> Gauge" where
  "Gauge_new name labels = \<lparr>gauge_name = name, labelnames = labels, samples = Map.empty\<rparr>"

text \<open>
  Line 23: the module-level dictionary \<^verbatim>\<open>gauges\<close>, from normalized path to gauge. Each
  gauge object is stored under exactly one key and is reached only through the dictionary,
  so the handle \<^verbatim>\<open>g\<close> that \<^verbatim>\<open>gauge()\<close> returns is modelled as that key, and
  \<^verbatim>\<open>g.labels(...).set(v)\<close> as an update of the entry, or as the exception when the
  names of the keyword arguments are not the label names of the entry.
\<close>

type_synonym registry = "string \<rightharpoonup> Gauge"

definition labels_set ::
  "string \<Rightarrow> label_values \<Rightarrow> int \<Rightarrow> registry \<Rightarrow> exn option \<times> registry" where
  "labels_set g kwargs v gs =
     (case gs g of
        None \<Rightarrow> (None, gs)
      | Some series \<Rightarrow>
          if sort (map fst kwargs) \<noteq> sort (labelnames series) then (Some ValueError, gs)
          else (None, gs(g \<mapsto> series\<lparr>samples := (samples series)(kwargs \<mapsto> v)\<rparr>)))"

text \<open>
  Statements in sequence, and a \<^verbatim>\<open>for\<close> loop, over the registry: what follows a
  statement that raised is not executed, and the registry stays as it was left.
\<close>

definition and_next ::
  "exn option \<times> registry \<Rightarrow> (registry \<Rightarrow> exn option \<times> registry) \<Rightarrow> exn option \<times> registry" where
  "and_next r f = (case r of (None, gs) \<Rightarrow> f gs | (Some e, gs) \<Rightarrow> (Some e, gs))"

fun for_each ::
  "('a \<Rightarrow> registry \<Rightarrow> exn option \<times> registry) \<Rightarrow> 'a list \<Rightarrow> registry \<Rightarrow> exn option \<times> registry" where
  "for_each body [] gs = (None, gs)"
| "for_each body (x # xs) gs = and_next (body x gs) (\<lambda>gs'. for_each body xs gs')"

text \<open>Lines 118-125: \<^verbatim>\<open>gauge(path, extra_labels=None)\<close>.\<close>

definition gauge :: "string \<Rightarrow> string list option \<Rightarrow> registry \<Rightarrow> string \<times> registry" where
  "gauge path extra_labels gs =
     (let path' = translate trantab (lower path) in
      case gs path' of
        None \<Rightarrow>
          (let labels = [''region'', ''type''] @ (case extra_labels of None \<Rightarrow> [] | Some ls \<Rightarrow> ls);
               g = Gauge_new path' labels
           in (path', gs(path' \<mapsto> g)))
      | Some g \<Rightarrow> (path', gs))"

text \<open>
  Two predicates for stating what the registry keeps: a series is the same series as
  another when it has its name and its label names (its samples may differ), and a
  registry grows into another when every path registered in the first is registered in
  the second, with the same series.
\<close>

definition same_series :: "Gauge \<Rightarrow> Gauge \<Rightarrow> bool" where
  "same_series g g' \<longleftrightarrow> gauge_name g' = gauge_name g \<and> labelnames g' = labelnames g"

definition grows :: "registry \<Rightarrow> registry \<Rightarrow> bool" where
  "grows gs gs' \<longleftrightarrow> (\<forall>q g. gs q = Some g \<longrightarrow> (\<exists>g'. gs' q = Some g' \<and> same_series g g'))"

text \<open>
  A series takes the keyword arguments \<^verbatim>\<open>region\<close> and \<^verbatim>\<open>type\<close> when these are its
  label names, up to order; it takes a third one, \<^verbatim>\<open>instance_type\<close>, when its label
  names are these three.
\<close>

definition base_labels :: "Gauge \<Rightarrow> bool" where
  "base_labels series \<longleftrightarrow> sort (labelnames series) = sort [''region'', ''type'']"

definition ec2_labels :: "Gauge \<Rightarrow> bool" where
  "ec2_labels series \<longleftrightarrow> sort (labelnames series) = sort [''region'', ''type'', ''instance_type'']"

section \<open>The usage-checking collaborator\<close>

text \<open>
  Modelled from the spec: the classes \<^verbatim>\<open>AwsLimitUsage\<close>, \<^verbatim>\<open>AwsLimit\<close> and
  \<^verbatim>\<open>AwsLimitChecker\<close> of the usage-checking backend, which are not under src/. A usage
  entry has an optional resource identifier and a value; a limit has a ceiling value and
  a sequence of usage entries; a checker's refresh may raise, and its report maps a
  service to a dictionary from limit name to limit. A dictionary is an association list
  (with distinct keys, in a real report).
\<close>

record AwsLimitUsage =
  resource_id :: "string option"
  get_value :: int

record AwsLimit =
  get_limit :: int
  get_current_usage :: "AwsLimitUsage list"

record AwsLimitChecker =
  find_usage :: "exn option"
  get_limits :: "(string \<times> (string \<times> AwsLimit) list) list"

section \<open>Usage translator\<close>

text \<open>Line 90: the fixed path of the EC2 on-demand gauge.\<close>

definition ec2_path :: string where
  "ec2_path = ''ec2_running_on_demand_ec2_instances''"

text \<open>
  Lines 94-101, the instance type of one limit of the on-demand group: \<^verbatim>\<open>total\<close> when
  the normalized path of the limit is the fixed path, else the first word of the limit
  name with a dot in it; \<^verbatim>\<open>next\<close> raises \<^verbatim>\<open>StopIteration\<close> when there is none.
\<close>

definition instance_type_of :: "string \<Rightarrow> exn + string" where
  "instance_type_of limit_name =
     (let limit_path = join ''.'' [''ec2'', limit_name];
          limit_path' = translate trantab (lower limit_path)
      in if limit_path' = ec2_path then Inr ''total''
         else py_next (filter (\<lambda>word. CHR ''.'' \<in> set word) (split_on CHR '' '' limit_name)))"

text \<open>Lines 93-104: the loop of \<^verbatim>\<open>update_ec2_on_demand\<close> over the sorted limits.\<close>

fun update_ec2_limits ::
  "string \<Rightarrow> string \<Rightarrow> (string \<times> AwsLimit) list \<Rightarrow> registry \<Rightarrow> exn option \<times> registry" where
  "update_ec2_limits g region [] gs = (None, gs)"
| "update_ec2_limits g region ((limit_name, limit) # rest) gs =
     (case instance_type_of limit_name of
        Inl e \<Rightarrow> (Some e, gs)
      | Inr instance_type \<Rightarrow>
          and_next (labels_set g
              [(''region'', region), (''type'', ''limit''), (''instance_type'', instance_type)]
              (get_limit limit) gs) (\<lambda>gs1.
          and_next (for_each (\<lambda>resource. labels_set g
              [(''region'', region), (''type'', ''current''), (''instance_type'', instance_type)]
              (get_value resource)) (get_current_usage limit) gs1) (\<lambda>gs2.
          update_ec2_limits g region rest gs2)))"

text \<open>Lines 87-104: \<^verbatim>\<open>update_ec2_on_demand(region, limits)\<close>.\<close>

definition update_ec2_on_demand ::
  "string \<Rightarrow> (string \<times> AwsLimit) list \<Rightarrow> registry \<Rightarrow> exn option \<times> registry" where
  "update_ec2_on_demand region limits gs =
     (if limits = [] then (None, gs)
      else (let (g, gs1) = gauge ec2_path (Some [''instance_type'']) gs
            in update_ec2_limits g region (sort_key fst limits) gs1))"

text \<open>
  Lines 112-114: the \<^verbatim>\<open>type\<close> label of a usage entry. The test
  \<^verbatim>\<open>if resource.resource_id:\<close> is false for \<^verbatim>\<open>None\<close> and for the empty string.
\<close>

definition metric_type_of :: "AwsLimitUsage \<Rightarrow> string" where
  "metric_type_of resource =
     (case resource_id resource of
        None \<Rightarrow> ''current''
      | Some rid \<Rightarrow> if rid = [] then ''current'' else rid)"

text \<open>Lines 107-115: \<^verbatim>\<open>update_service(path, usage, limit, region)\<close>.\<close>

definition update_service ::
  "string \<Rightarrow> AwsLimitUsage list \<Rightarrow> int \<Rightarrow> string \<Rightarrow> registry \<Rightarrow> exn option \<times> registry" where
  "update_service path usage limit region gs =
     (let (g, gs1) = gauge path None gs
      in and_next (labels_set g [(''region'', region), (''type'', ''limit'')] limit gs1) (\<lambda>gs2.
         for_each (\<lambda>resource. labels_set g
           [(''region'', region), (''type'', metric_type_of resource)] (get_value resource))
           usage gs2))"

text \<open>Lines 76 and 77: the two dictionary comprehensions that split a service's limits.\<close>

definition ec2_instances_limits_of :: "(string \<times> AwsLimit) list \<Rightarrow> (string \<times> AwsLimit) list" where
  "ec2_instances_limits_of svc_limits =
     filter (\<lambda>(key, limit). str_contains ''on-demand'' (lower key)) svc_limits"

definition other_limits_of :: "(string \<times> AwsLimit) list \<Rightarrow> (string \<times> AwsLimit) list" where
  "other_limits_of svc_limits =
     filter (\<lambda>(key, limit). key \<notin> set (map fst (ec2_instances_limits_of svc_limits))) svc_limits"

text \<open>Lines 75-82: the loop of \<^verbatim>\<open>update\<close> over the sorted services.\<close>

fun update_services ::
  "string \<Rightarrow> (string \<times> (string \<times> AwsLimit) list) list \<Rightarrow> registry \<Rightarrow> exn option \<times> registry" where
  "update_services region [] gs = (None, gs)"
| "update_services region ((service, svc_limits) # rest) gs =
     (let ec2_instances_limits = ec2_instances_limits_of svc_limits;
          other_limits = other_limits_of svc_limits
      in and_next (update_ec2_on_demand region ec2_instances_limits gs) (\<lambda>gs1.
         and_next (for_each (\<lambda>(limit_name, limit).
             update_service (join ''.'' [service, limit_name])
               (get_current_usage limit) (get_limit limit) region)
             (sort_key fst other_limits) gs1) (\<lambda>gs2.
         update_services region rest gs2)))"

text \<open>
  Two conditions under which no call of \<^verbatim>\<open>labels\<close> is refused. A registry is well
  labelled when the series at the fixed path of the EC2 on-demand gauge, if there is
  one, takes the three keyword arguments and every other series the two. A report is
  free of collisions when no limit of a general group has the fixed path as its
  normalized path.
\<close>

definition well_labelled :: "registry \<Rightarrow> bool" where
  "well_labelled gs \<longleftrightarrow>
     (\<forall>p series. gs p = Some series \<longrightarrow>
        (if p = ec2_path then ec2_labels series else base_labels series))"

definition no_collision :: "(string \<times> (string \<times> AwsLimit) list) list \<Rightarrow> bool" where
  "no_collision services \<longleftrightarrow>
     (\<forall>service svc_limits limit_name limit.
        (service, svc_limits) \<in> set services \<and> (limit_name, limit) \<in> set (other_limits_of svc_limits) \<longrightarrow>
          normalize_name service limit_name \<noteq> ec2_path)"

text \<open>Lines 72-82: the body of the \<^verbatim>\<open>try\<close> statement of \<^verbatim>\<open>update\<close>.\<close>

definition update_try :: "AwsLimitChecker \<Rightarrow> string \<Rightarrow> registry \<Rightarrow> exn option \<times> registry" where
  "update_try checker region gs =
     (case find_usage checker of
        Some e \<Rightarrow> (Some e, gs)
      | None \<Rightarrow> update_services region (sort_key fst (get_limits checker)) gs)"

section \<open>Region scheduler\<close>

text \<open>
  The state of the process: the gauge dictionary, the records written by
  \<^verbatim>\<open>logging.exception\<close> (one per exception caught), and the number of durations the
  summary \<^verbatim>\<open>REQUEST_TIME\<close> has observed (its decorator observes one per call of
  \<^verbatim>\<open>update\<close>).
\<close>

record state =
  gauges :: registry
  logged :: "exn list"
  observations :: nat

text \<open>
  Lines 69-84: \<^verbatim>\<open>update(checker, region)\<close>. The result type lets \<^verbatim>\<open>update\<close> raise;
  the handler \<^verbatim>\<open>except Exception\<close> turns an exception of the body into a log record.
\<close>

definition update :: "AwsLimitChecker \<Rightarrow> string \<Rightarrow> state \<Rightarrow> exn + state" where
  "update checker region st =
     (case update_try checker region (gauges st) of
        (None, gs) \<Rightarrow> Inr (st\<lparr>gauges := gs, observations := Suc (observations st)\<rparr>)
      | (Some e, gs) \<Rightarrow>
          Inr (st\<lparr>gauges := gs, logged := logged st @ [e],
                 observations := Suc (observations st)\<rparr>))"

text \<open>
  Lines 64-65, one cycle: \<^verbatim>\<open>update\<close> for every region in turn; an exception out of
  \<^verbatim>\<open>update\<close> would end the loop. A checker is a long-lived handle whose answers change
  from poll to poll: it is modelled as a function from the number of the cycle to what
  the backend answers in that cycle.
\<close>

fun cycle :: "nat \<Rightarrow> (string \<times> (nat \<Rightarrow> AwsLimitChecker)) list \<Rightarrow> state \<Rightarrow> exn + state" where
  "cycle k [] st = Inr st"
| "cycle k ((region, checker) # rest) st =
     (case update (checker k) region st of
        Inl e \<Rightarrow> Inl e
      | Inr st' \<Rightarrow> cycle k rest st')"

text \<open>
  Lines 63-66: the loop \<^verbatim>\<open>while True\<close> never returns by itself. \<open>main_loop n k\<close> is
  what its first \<open>n\<close> cycles do, numbered from \<open>k\<close>: the state they reach, or the
  exception that ended the loop.
\<close>

fun main_loop ::
  "nat \<Rightarrow> nat \<Rightarrow> (string \<times> (nat \<Rightarrow> AwsLimitChecker)) list \<Rightarrow> state \<Rightarrow> exn + state" where
  "main_loop 0 k checkers st = Inr st"
| "main_loop (Suc n) k checkers st =
     (case cycle k checkers st of
        Inl e \<Rightarrow> Inl e
      | Inr st' \<Rightarrow> main_loop n (Suc k) checkers st')"

section \<open>Override parser\<close>

text \<open>Lines 27-48: the class \<^verbatim>\<open>_Limit_Override\<close>; its four attributes.\<close>

record Limit_Override =
  ov_region :: string
  ov_service :: string
  ov_limit_name :: string
  ov_value :: int

text \<open>Lines 28-32: \<^verbatim>\<open>_Limit_Override.__init__(self, item)\<close>, statement by statement.\<close>

definition Limit_Override_init :: "string \<Rightarrow> exn + Limit_Override" where
  "Limit_Override_init item =
     and_then (getitem (split_on CHR ''/'' item) 0) (\<lambda>region.
     and_then (getitem (split_on CHR ''/'' item) 1) (\<lambda>service.
     and_then (getitem (split_on CHR ''='' item) 0) (\<lambda>left.
     and_then (getitem (split_on CHR ''/'' left) 2) (\<lambda>limit_name.
     and_then (getitem (split_on CHR ''='' item) 1) (\<lambda>right.
     and_then (py_int right) (\<lambda>v.
       Inr \<lparr>ov_region = region, ov_service = service,
            ov_limit_name = limit_name, ov_value = v\<rparr>))))))"

text \<open>
  The class defines neither \<^verbatim>\<open>__eq__\<close> nor \<^verbatim>\<open>__hash__\<close>, so two of its objects are
  equal only when they are the same object. An object is modelled as its identity (the
  number of objects created before it) paired with its attributes.
\<close>

type_synonym override_obj = "nat \<times> Limit_Override"

text \<open>
  Line 141: the set comprehension, which creates one object per qualifying line, in
  order; the first exception ends it.
\<close>

fun new_overrides :: "nat \<Rightarrow> string list \<Rightarrow> exn + override_obj list" where
  "new_overrides i [] = Inr []"
| "new_overrides i (item # items) =
     (case Limit_Override_init item of
        Inl e \<Rightarrow> Inl e
      | Inr ov \<Rightarrow>
          (case new_overrides (Suc i) items of
             Inl e \<Rightarrow> Inl e
           | Inr objs \<Rightarrow> Inr ((i, ov) # objs)))"

definition overrides_of_lines :: "string list \<Rightarrow> exn + override_obj set" where
  "overrides_of_lines lines =
     (case new_overrides 0 (filter (\<lambda>item. CHR ''='' \<in> set item) lines) of
        Inl e \<Rightarrow> Inl e
      | Inr objs \<Rightarrow> Inr (set objs))"

text \<open>
  Line 141 as a whole, on the text that \<^verbatim>\<open>_read_config\<close> returned for the overrides
  file.
\<close>

definition get_configs_overrides :: "string \<Rightarrow> exn + override_obj set" where
  "get_configs_overrides contents = overrides_of_lines (split_on (CHR 0x0A) contents)"

section \<open>Facts about strings and normalization\<close>

declare digits.simps [simp del]

lemma trantab_apply:
  "trantab c =
     (if c = CHR '' '' \<or> c = CHR ''-'' \<or> c = CHR ''.'' then Some (Some CHR ''_'')
      else if c = CHR ''('' \<or> c = CHR '')'' then Some None
      else None)"
  by (simp add: trantab_def maketrans_def)

lemma translate_trantab: "translate trantab s = concat (map spec_translit s)"
proof -
  have "(case trantab c of None \<Rightarrow> [c] | Some None \<Rightarrow> [] | Some (Some d) \<Rightarrow> [d]) = spec_translit c"
    for c
    by (simp add: trantab_apply spec_translit_def)
  then show ?thesis
    by (simp add: translate_def)
qed

lemma normalize_path_spec: "normalize_path s = concat (map spec_translit (map lower_char s))"
  by (simp add: normalize_path_def lower_def translate_trantab)

lemma lower_char_not_upper:
  "\<not> (65 \<le> (of_char (lower_char c) :: nat) \<and> (of_char (lower_char c) :: nat) \<le> 90)"
  by (auto simp add: lower_char_def Let_def)

lemma lower_char_idem: "lower_char (lower_char c) = lower_char c"
proof -
  have "lower_char d = d" if "\<not> (65 \<le> (of_char d :: nat) \<and> (of_char d :: nat) \<le> 90)" for d
    using that by (auto simp add: lower_char_def Let_def)
  then show ?thesis
    using lower_char_not_upper [of c] by blast
qed

lemma spec_translit_fixed:
  "concat (map spec_translit (map lower_char (spec_translit (lower_char c)))) =
     spec_translit (lower_char c)"
  using lower_char_idem [of c] by (auto simp add: spec_translit_def lower_char_def Let_def)

lemma normalize_path_idem: "normalize_path (normalize_path s) = normalize_path s"
  using spec_translit_fixed by (induction s) (simp_all add: normalize_path_spec)

lemma normalize_name_example:
  "normalize_name ''EC2'' ''Running On-Demand m5.large Instances'' =
     ''ec2_running_on_demand_m5_large_instances''"
  by code_simp

lemma normalize_path_ec2_path: "normalize_path ec2_path = ec2_path"
  by code_simp

section \<open>Path normalizer\<close>

text \<open>
  C1. The normalized path is a function of the service and the limit name alone: the two
  are joined with a dot, the result is lowercased, and one pass from the left turns every
  space, dash and dot into an underscore and removes every parenthesis. This is the
  specification's \<open>spec_normalize\<close>, which the table-driven code computes. On the
  service \<^verbatim>\<open>EC2\<close> and the limit \<^verbatim>\<open>Running On-Demand m5.large Instances\<close> the path is
  \<^verbatim>\<open>ec2_running_on_demand_m5_large_instances\<close>. Being a function of its two
  arguments, it gives the same path for the same input.
\<close>

theorem normalize_name_is_spec_normalize:
  "normalize_name service limit_name = spec_normalize service limit_name \<and>
   normalize_name ''EC2'' ''Running On-Demand m5.large Instances'' =
     ''ec2_running_on_demand_m5_large_instances''"
proof (rule conjI)
  show "normalize_name service limit_name = spec_normalize service limit_name"
    by (simp add: normalize_name_def spec_normalize_def normalize_path_spec)
  show "normalize_name ''EC2'' ''Running On-Demand m5.large Instances'' =
     ''ec2_running_on_demand_m5_large_instances''"
    by (rule normalize_name_example)
qed

text \<open>
  C10. Lowercasing followed by the transliteration pass is idempotent: a normalized
  string holds no capital letter, space, dash, dot or parenthesis, so normalizing it again
  changes nothing. In particular the fixed path of the EC2 on-demand gauge, which
  \<^verbatim>\<open>update_ec2_on_demand\<close> hands to \<^verbatim>\<open>gauge\<close> already in canonical form, is registered
  under itself.
\<close>

theorem normalize_path_idempotent:
  "normalize_path (normalize_path s) = normalize_path s \<and>
   fst (gauge ec2_path extra_labels gs) = ec2_path"
proof (rule conjI)
  show "normalize_path (normalize_path s) = normalize_path s"
    by (rule normalize_path_idem)
  have "translate trantab (lower ec2_path) = ec2_path"
    using normalize_path_ec2_path by (simp add: normalize_path_def)
  then show "fst (gauge ec2_path extra_labels gs) = ec2_path"
    by (simp add: gauge_def Let_def split: option.split)
qed

section \<open>Facts about splitting and integer literals\<close>

lemma split_on_not_Nil: "split_on sep s \<noteq> []"
  by (induction s) (simp_all add: Let_def)

lemma split_on_notin: "sep \<notin> set a \<Longrightarrow> split_on sep a = [a]"
  by (induction a) (auto simp add: Let_def)

lemma split_on_append_sep: "split_on sep (a @ sep # b) = split_on sep a @ split_on sep b"
proof (induction a)
  case Nil
  show ?case by (simp add: Let_def)
next
  case (Cons c a)
  then show ?case
    using split_on_not_Nil [of sep a]
    by (cases "split_on sep a") (simp_all add: Let_def)
qed

lemma split_on_first: "sep \<notin> set a \<Longrightarrow> split_on sep (a @ sep # b) = a # split_on sep b"
  by (simp add: split_on_append_sep split_on_notin)

lemma split_on_append:
  "split_on sep (a @ b) =
     butlast (split_on sep a) @ (last (split_on sep a) @ hd (split_on sep b)) # tl (split_on sep b)"
proof (induction a)
  case Nil
  show ?case using split_on_not_Nil [of sep b] by (cases "split_on sep b") simp_all
next
  case (Cons c a)
  show ?case
  proof (cases "split_on sep a")
    case Nil
    then show ?thesis using split_on_not_Nil [of sep a] by simp
  next
    case (Cons w ws)
    then show ?thesis
      using Cons.IH by (cases ws) (simp_all add: Let_def)
  qed
qed

lemma take_while_split: "x \<in> set xs \<Longrightarrow> xs = takeWhile (\<lambda>y. y \<noteq> x) xs @ x # tl (dropWhile (\<lambda>y. y \<noteq> x) xs)"
  by (induction xs) auto

lemma hd_split_on: "hd (split_on sep s) = takeWhile (\<lambda>c. c \<noteq> sep) s"
  by (induction s) (simp_all add: Let_def)


lemma of_char_digit_char: "d < 10 \<Longrightarrow> (of_char (digit_char d) :: nat) = 48 + d"
  by (simp add: digit_char_def)

lemma is_digit_digit_char: "d < 10 \<Longrightarrow> is_digit (digit_char d)"
  by (simp add: is_digit_def of_char_digit_char)

lemma digit_val_digit_char: "d < 10 \<Longrightarrow> digit_val (digit_char d) = d"
  by (simp add: digit_val_def of_char_digit_char)

lemma digits_not_Nil: "digits n \<noteq> []"
  by (subst digits.simps) simp

lemma digits_all_digit: "list_all is_digit (digits n)"
proof (induction n rule: digits.induct)
  case (1 n)
  show ?case
  proof (cases "n < 10")
    case True
    then show ?thesis by (subst digits.simps) (simp add: is_digit_digit_char)
  next
    case False
    then show ?thesis using 1 by (subst digits.simps) (simp add: is_digit_digit_char)
  qed
qed

lemma digits_val_digits: "digits_val (digits n) = n"
proof (induction n rule: digits.induct)
  case (1 n)
  show ?case
  proof (cases "n < 10")
    case True
    then show ?thesis by (subst digits.simps) (simp add: digits_val_def digit_val_digit_char)
  next
    case False
    then have "digits_val (digits (n div 10)) = n div 10" using 1 by simp
    with False show ?thesis
      by (subst digits.simps) (simp add: digits_val_def digit_val_digit_char)
  qed
qed

lemma is_digit_facts:
  "is_digit c \<Longrightarrow> \<not> is_space c \<and> c \<noteq> CHR ''-'' \<and> c \<noteq> CHR ''+'' \<and> c \<noteq> CHR ''_'' \<and> c \<noteq> CHR ''='' \<and> c \<noteq> CHR ''/''"
  by (auto simp add: is_digit_def is_space_def Let_def)

lemma strip_id: "s \<noteq> [] \<Longrightarrow> \<not> is_space (hd s) \<Longrightarrow> \<not> is_space (last s) \<Longrightarrow> strip s = s"
proof -
  assume a: "s \<noteq> []" "\<not> is_space (hd s)" "\<not> is_space (last s)"
  then have 1: "dropWhile is_space s = s" by (cases s) simp_all
  from a have "dropWhile is_space (rev s) = rev s"
    by (cases "rev s") (simp_all add: hd_rev)
  with 1 show ?thesis by (simp add: strip_def)
qed

lemma py_int_digits:
  assumes "ds \<noteq> []" "list_all is_digit ds"
  shows "py_int ds = Inr (int (digits_val ds))" "py_int (CHR ''-'' # ds) = Inr (- int (digits_val ds))"
proof -
  from assms obtain c r where ds: "ds = c # r" by (cases ds) auto
  from assms have hd: "is_digit (hd ds)" and last: "is_digit (last ds)"
    by (auto simp add: list_all_iff hd_in_set)
  have us: "CHR ''_'' \<notin> set ds"
    using assms(2) is_digit_facts by (auto simp add: list_all_iff)
  have sp: "split_on CHR ''_'' ds = [ds]" using us by (rule split_on_notin)
  have s1: "strip ds = ds"
    using assms(1) hd last is_digit_facts by (intro strip_id) auto
  have s2: "strip (CHR ''-'' # ds) = CHR ''-'' # ds"
    using assms(1) last is_digit_facts by (intro strip_id) (auto simp add: is_space_def)
  have sg: "split_sign ds = (False, ds)"
    using hd is_digit_facts [of c] by (simp add: ds)
  show "py_int ds = Inr (int (digits_val ds))"
    using assms by (simp add: py_int_def s1 sg sp)
  show "py_int (CHR ''-'' # ds) = Inr (- int (digits_val ds))"
    using assms by (simp add: py_int_def s2 sp)
qed

lemma py_int_decimal: "py_int (decimal v) = Inr v"
  using py_int_digits [OF digits_not_Nil digits_all_digit]
  by (simp add: decimal_def digits_val_digits)

lemma decimal_no_eq: "CHR ''='' \<notin> set (decimal v)"
  using digits_all_digit is_digit_facts by (auto simp add: decimal_def list_all_iff)

lemma py_int_error: "py_int s = Inl e \<Longrightarrow> e = ValueError"
  by (auto simp add: py_int_def Let_def split: prod.splits if_splits)


lemma and_then_simps:
  "and_then (Inl e) f = Inl e"
  "and_then (Inr x) f = f x"
  by (simp_all add: and_then_def)

lemma Limit_Override_init_eq:
  assumes eq: "CHR ''='' \<in> set item"
  shows "Limit_Override_init item =
    (let parts = split_on CHR ''/'' (takeWhile (\<lambda>c. c \<noteq> CHR ''='') item);
         right = takeWhile (\<lambda>c. c \<noteq> CHR ''='') (tl (dropWhile (\<lambda>c. c \<noteq> CHR ''='') item))
     in if length parts < 3 then Inl IndexError
        else case py_int right of
               Inl e \<Rightarrow> Inl ValueError
             | Inr v \<Rightarrow> Inr \<lparr>ov_region = parts ! 0, ov_service = parts ! 1,
                              ov_limit_name = parts ! 2, ov_value = v\<rparr>)"
proof -
  define L where "L = takeWhile (\<lambda>c. c \<noteq> CHR ''='') item"
  define rest where "rest = tl (dropWhile (\<lambda>c. c \<noteq> CHR ''='') item)"
  define P where "P = split_on CHR ''/'' L"
  define Q where "Q = split_on CHR ''/'' (CHR ''='' # rest)"
  have item: "item = L @ CHR ''='' # rest"
    unfolding L_def rest_def using eq by (rule take_while_split)
  have noL: "CHR ''='' \<notin> set L"
    unfolding L_def by (auto dest: set_takeWhileD)
  have se: "split_on CHR ''='' item = L # split_on CHR ''='' rest"
    by (subst item) (simp add: split_on_first noL)
  have g0: "getitem (split_on CHR ''='' item) 0 = Inr L"
    by (simp add: se getitem_def)
  have g1: "getitem (split_on CHR ''='' item) 1 = Inr (takeWhile (\<lambda>c. c \<noteq> CHR ''='') rest)"
    using split_on_not_Nil [of "CHR ''=''" rest] hd_split_on [of "CHR ''=''" rest]
    by (cases "split_on CHR ''='' rest") (simp_all add: se getitem_def)
  have sl: "split_on CHR ''/'' item = butlast P @ (last P @ hd Q) # tl Q"
    unfolding P_def Q_def by (subst item) (rule split_on_append)
  have r0: "getitem (split_on CHR ''/'' item) 0 = Inr (split_on CHR ''/'' item ! 0)"
    using split_on_not_Nil [of "CHR ''/''" item] by (simp add: getitem_def)
  show ?thesis
  proof (cases "length P < 3")
    case True
    then have g2: "getitem P 2 = Inl IndexError" by (simp add: getitem_def)
    have "getitem (split_on CHR ''/'' item) 1 = Inl IndexError \<or>
        (\<exists>b. getitem (split_on CHR ''/'' item) 1 = Inr b)"
      by (simp add: getitem_def)
    then have "Limit_Override_init item = Inl IndexError"
      unfolding Limit_Override_init_def r0 g0 and_then_simps
      by (auto simp add: and_then_simps g2 [unfolded P_def])
    with True show ?thesis unfolding Let_def P_def L_def by simp
  next
    case False
    then have len: "2 \<le> length (butlast P)" by simp
    have i0: "split_on CHR ''/'' item ! 0 = P ! 0"
      using len by (auto simp add: sl nth_append nth_butlast)
    have i1: "split_on CHR ''/'' item ! 1 = P ! 1"
      using len by (auto simp add: sl nth_append nth_butlast)
    have l1: "1 < length (split_on CHR ''/'' item)"
      using len by (simp add: sl)
    have q1: "getitem (split_on CHR ''/'' item) 1 = Inr (P ! 1)"
      using l1 i1 by (simp add: getitem_def)
    have g2: "getitem P 2 = Inr (P ! 2)" using False by (simp add: getitem_def)
    have "Limit_Override_init item =
        (case py_int (takeWhile (\<lambda>c. c \<noteq> CHR ''='') rest) of
           Inl e \<Rightarrow> Inl ValueError
         | Inr v \<Rightarrow> Inr \<lparr>ov_region = P ! 0, ov_service = P ! 1, ov_limit_name = P ! 2, ov_value = v\<rparr>)"
      unfolding Limit_Override_init_def r0 g0 g1 q1 i0 and_then_simps g2 [unfolded P_def] P_def [symmetric]
      using py_int_error [of "takeWhile (\<lambda>c. c \<noteq> CHR ''='') rest"]
      by (cases "py_int (takeWhile (\<lambda>c. c \<noteq> CHR ''='') rest)") (simp_all add: and_then_simps g2)
    with False show ?thesis unfolding Let_def P_def L_def rest_def by simp
  qed
qed

lemma join_split: "join [sep] (split_on sep s) = s"
proof (induction s)
  case Nil
  show ?case by simp
next
  case (Cons c s)
  obtain w ws where sp: "split_on sep s = w # ws"
    using split_on_not_Nil [of sep s] by (cases "split_on sep s") auto
  from Cons.IH sp have IH: "join [sep] (w # ws) = s" by simp
  show ?case
  proof (cases "c = sep")
    case True
    with IH show ?thesis by (simp add: sp Let_def)
  next
    case False
    with IH show ?thesis by (cases ws) (simp_all add: sp Let_def)
  qed
qed

lemma split_join:
  "groups \<noteq> [] \<Longrightarrow> (\<And>g. g \<in> set groups \<Longrightarrow> sep \<notin> set g) \<Longrightarrow>
     split_on sep (join [sep] groups) = groups"
proof (induction groups)
  case Nil
  then show ?case by simp
next
  case (Cons g gs)
  show ?case
  proof (cases gs)
    case Nil
    with Cons.prems show ?thesis by (simp add: split_on_notin)
  next
    case (Cons y ys)
    have "split_on sep (join [sep] gs) = gs"
      using Cons Cons.prems by (intro Cons.IH) simp_all
    moreover have "sep \<notin> set g" using Cons.prems by simp
    ultimately show ?thesis by (simp add: Cons split_on_first)
  qed
qed

lemma set_join: "c \<in> set (join sep groups) \<Longrightarrow> c \<in> set sep \<or> (\<exists>g \<in> set groups. c \<in> set g)"
  by (induction sep groups rule: join.induct) auto

lemma hd_join: "g \<noteq> [] \<Longrightarrow> hd (join sep (g # gs)) = hd g"
  by (cases gs) simp_all

lemma join_not_Nil: "g \<noteq> [] \<Longrightarrow> join sep (g # gs) \<noteq> []"
  by (cases gs) simp_all

lemma last_join_aux:
  "groups \<noteq> [] \<Longrightarrow> last groups \<noteq> [] \<Longrightarrow>
     join sep groups \<noteq> [] \<and> last (join sep groups) = last (last groups)"
  by (induction sep groups rule: join.induct) auto

lemma last_join: "groups \<noteq> [] \<Longrightarrow> last groups \<noteq> [] \<Longrightarrow> last (join sep groups) = last (last groups)"
  by (simp add: last_join_aux)

lemma strip_decompose:
  "s = takeWhile is_space s @ strip s @ rev (takeWhile is_space (rev (dropWhile is_space s)))"
proof -
  define d where "d = dropWhile is_space s"
  have "d = rev (dropWhile is_space (rev d)) @ rev (takeWhile is_space (rev d))"
    by (metis rev_append rev_rev_ident takeWhile_dropWhile_id)
  moreover have "s = takeWhile is_space s @ d" by (simp add: d_def)
  ultimately show ?thesis by (simp add: strip_def d_def)
qed

lemma strip_between:
  assumes "list_all is_space ws1" "list_all is_space ws2" "m \<noteq> []"
    "\<not> is_space (hd m)" "\<not> is_space (last m)"
  shows "strip (ws1 @ m @ ws2) = m"
proof -
  from assms(3) obtain c r where m: "m = c # r" by (cases m) auto
  have 1: "dropWhile is_space (ws1 @ m @ ws2) = m @ ws2"
    using assms(1,4) by (simp add: m list_all_iff dropWhile_append)
  have "rev m \<noteq> []" using assms(3) by simp
  then obtain c' r' where rm: "rev m = c' # r'" by (cases "rev m") auto
  then have "c' = last m" using assms(3) by (metis hd_rev list.sel(1))
  then have 2: "dropWhile is_space (rev ws2 @ rev m) = rev m"
    using assms(2,5) by (simp add: rm list_all_iff dropWhile_append)
  show ?thesis by (simp add: strip_def 1 2)
qed

lemma split_sign_shape:
  "split_sign t = (neg, body) \<Longrightarrow>
     \<exists>sg. t = sg @ body \<and> (sg = [] \<or> sg = ''+'' \<or> sg = ''-'')"
  by (cases t) (auto split: if_splits)

lemma py_int_is_literal: "py_int s = Inr v \<Longrightarrow> int_literal s"
proof -
  assume a: "py_int s = Inr v"
  obtain neg body where sg: "split_sign (strip s) = (neg, body)" by (cases "split_sign (strip s)")
  from a sg have ok: "list_all (\<lambda>g. g \<noteq> [] \<and> list_all is_digit g) (split_on CHR ''_'' body)"
    by (simp add: py_int_def Let_def split: if_splits)
  from split_sign_shape [OF sg] obtain sign where
    sign: "strip s = sign @ body" "sign = [] \<or> sign = ''+'' \<or> sign = ''-''" by blast
  have body: "body = join ''_'' (split_on CHR ''_'' body)" by (simp add: join_split)
  have "s = takeWhile is_space s @ sign @ join ''_'' (split_on CHR ''_'' body) @
      rev (takeWhile is_space (rev (dropWhile is_space s)))"
    using strip_decompose [of s] sign(1) body by simp
  moreover have "list_all is_space (takeWhile is_space s)"
    by (auto simp add: list_all_iff dest: set_takeWhileD)
  moreover have "list_all is_space (rev (takeWhile is_space (rev (dropWhile is_space s))))"
    by (auto simp add: list_all_iff dest: set_takeWhileD)
  moreover have "split_on CHR ''_'' body \<noteq> []" by (rule split_on_not_Nil)
  ultimately show ?thesis
    unfolding int_literal_def using sign(2) ok by blast
qed

lemma literal_py_int:
  assumes "int_literal s"
  shows "\<exists>v. py_int s = Inr v"
proof -
  from assms obtain ws1 sg groups ws2 where
    s: "s = ws1 @ sg @ join ''_'' groups @ ws2" and
    ws: "list_all is_space ws1" "list_all is_space ws2" and
    sg: "sg = [] \<or> sg = ''+'' \<or> sg = ''-''" and
    ne: "groups \<noteq> []" and
    ok: "list_all (\<lambda>g. g \<noteq> [] \<and> list_all is_digit g) groups"
    unfolding int_literal_def by blast
  define J where "J = join ''_'' groups"
  from ne obtain g gs where groups: "groups = g # gs" by (cases groups) auto
  from ok have g: "g \<noteq> []" "is_digit (hd g)" by (auto simp add: groups list_all_iff)
  from ne have "last groups \<in> set groups" by simp
  with ok have l1: "last groups \<noteq> []" and l2: "list_all is_digit (last groups)"
    by (auto simp add: list_all_iff)
  from l1 have "last (last groups) \<in> set (last groups)" by simp
  with l1 l2 have l: "last groups \<noteq> []" "is_digit (last (last groups))"
    by (auto simp add: list_all_iff)
  have Jne: "J \<noteq> []" unfolding J_def groups using g(1) by (rule join_not_Nil)
  have hdJ: "is_digit (hd J)" unfolding J_def groups using g by (simp add: hd_join)
  have lastJ: "is_digit (last J)" unfolding J_def using ne l by (simp add: last_join)
  have strip: "strip s = sg @ J"
  proof -
    have "strip (ws1 @ (sg @ J) @ ws2) = sg @ J"
    proof (rule strip_between [OF ws])
      show "sg @ J \<noteq> []" using Jne by simp
      show "\<not> is_space (hd (sg @ J))"
        using sg hdJ Jne is_digit_facts [of "hd J"] by (auto simp add: is_space_def)
      show "\<not> is_space (last (sg @ J))"
        using lastJ Jne is_digit_facts [of "last J"] by simp
    qed
    then show ?thesis by (simp add: s J_def)
  qed
  from Jne obtain c r where J: "J = c # r" by (cases J) auto
  have sign: "split_sign (sg @ J) = (sg = ''-'', J)"
    using sg hdJ is_digit_facts [of c] by (auto simp add: J)
  have "\<And>g. g \<in> set groups \<Longrightarrow> CHR ''_'' \<notin> set g"
    using ok is_digit_facts by (auto simp add: list_all_iff)
  with ne have "split_on CHR ''_'' (join [CHR ''_''] groups) = groups" by (rule split_join)
  then have sp: "split_on CHR ''_'' J = groups" by (simp add: J_def)
  show ?thesis
    using ok by (simp add: py_int_def strip sign sp)
qed

lemma py_int_literal_iff: "int_literal s \<longleftrightarrow> (\<exists>v. py_int s = Inr v)"
  using py_int_is_literal literal_py_int by blast

lemma not_literal_ValueError: "\<not> int_literal s \<Longrightarrow> py_int s = Inl ValueError"
proof (cases "py_int s")
  case (Inl e)
  then show ?thesis using py_int_error by simp
next
  case (Inr v)
  assume "\<not> int_literal s"
  with Inr py_int_is_literal show ?thesis by blast
qed

lemma literal_chars:
  assumes "int_literal s" "c \<in> set s"
  shows "is_space c \<or> is_digit c \<or> c = CHR ''+'' \<or> c = CHR ''-'' \<or> c = CHR ''_''"
proof -
  from assms(1) obtain ws1 sg groups ws2 where
    s: "s = ws1 @ sg @ join ''_'' groups @ ws2" and
    ws: "list_all is_space ws1" "list_all is_space ws2" and
    sg: "sg = [] \<or> sg = ''+'' \<or> sg = ''-''" and
    ok: "list_all (\<lambda>g. g \<noteq> [] \<and> list_all is_digit g) groups"
    unfolding int_literal_def by blast
  from assms(2) s consider "c \<in> set ws1" | "c \<in> set sg" | "c \<in> set (join ''_'' groups)" | "c \<in> set ws2"
    by auto
  then show ?thesis
  proof cases
    case 1 then show ?thesis using ws(1) by (simp add: list_all_iff)
  next
    case 2 then show ?thesis using sg by auto
  next
    case 3
    from set_join [OF this] ok show ?thesis by (auto simp add: list_all_iff)
  next
    case 4 then show ?thesis using ws(2) by (simp add: list_all_iff)
  qed
qed

section \<open>Facts about the override parser\<close>

lemma new_overrides_raises:
  "item \<in> set items \<Longrightarrow> Limit_Override_init item = Inl e \<Longrightarrow> \<exists>e'. new_overrides i items = Inl e'"
proof (induction items arbitrary: i)
  case Nil
  then show ?case by simp
next
  case (Cons a items)
  show ?case
  proof (cases "Limit_Override_init a")
    case (Inl e1)
    then show ?thesis by simp
  next
    case (Inr ov)
    with Cons.prems have "item \<in> set items" by auto
    from Cons.IH [OF this Cons.prems(2), of "Suc i"] obtain e' where "new_overrides (Suc i) items = Inl e'" ..
    with Inr show ?thesis by simp
  qed
qed

lemma new_overrides_returns:
  "(\<And>item. item \<in> set items \<Longrightarrow> \<exists>ov. Limit_Override_init item = Inr ov) \<Longrightarrow>
     \<exists>objs. new_overrides i items = Inr objs"
proof (induction items arbitrary: i)
  case Nil
  then show ?case by simp
next
  case (Cons a items)
  from Cons.prems [of a] obtain ov where a: "Limit_Override_init a = Inr ov" by auto
  from Cons.IH [of "Suc i"] Cons.prems obtain objs where "new_overrides (Suc i) items = Inr objs"
    by auto
  with a show ?case by simp
qed

lemma new_overrides_all_parse:
  assumes "new_overrides i items = Inr objs" "item \<in> set items"
  shows "\<exists>ov. Limit_Override_init item = Inr ov"
proof (cases "Limit_Override_init item")
  case (Inl e)
  from new_overrides_raises [OF assms(2) this, of i] assms(1) show ?thesis by simp
next
  case (Inr ov)
  then show ?thesis by blast
qed

lemma new_overrides_attributes:
  "new_overrides i items = Inr objs \<Longrightarrow>
     map (\<lambda>obj. Inr (snd obj)) objs = map Limit_Override_init items"
  by (induction items arbitrary: i objs) (auto split: sum.splits)

lemma new_overrides_ids:
  "new_overrides i items = Inr objs \<Longrightarrow>
     (\<forall>obj \<in> set objs. i \<le> fst obj) \<and> distinct (map fst objs)"
proof (induction items arbitrary: i objs)
  case Nil
  then show ?case by simp
next
  case (Cons a items)
  from Cons.prems obtain ov objs' where
    objs: "objs = (i, ov) # objs'" and rest: "new_overrides (Suc i) items = Inr objs'"
    by (auto split: sum.splits)
  from Cons.IH [OF rest] have ge: "\<forall>obj \<in> set objs'. Suc i \<le> fst obj" and d: "distinct (map fst objs')"
    by simp_all
  from ge have "i \<notin> fst ` set objs'" by auto
  with ge d show ?case by (auto simp add: objs)
qed

lemma new_overrides_distinct: "new_overrides i items = Inr objs \<Longrightarrow> distinct objs"
  using new_overrides_ids [of i items objs] by (simp add: distinct_map)

lemma new_overrides_length: "new_overrides i items = Inr objs \<Longrightarrow> length objs = length items"
  using new_overrides_attributes [of i items objs] by (metis length_map)

lemma overrides_of_lines_skip:
  "CHR ''='' \<notin> set item \<Longrightarrow> overrides_of_lines (xs @ item # ys) = overrides_of_lines (xs @ ys)"
  by (simp add: overrides_of_lines_def)

lemma well_formed_line:
  assumes "CHR ''/'' \<notin> set region" "CHR ''='' \<notin> set region"
    and "CHR ''/'' \<notin> set service" "CHR ''='' \<notin> set service"
    and "CHR ''/'' \<notin> set limit_name" "CHR ''='' \<notin> set limit_name"
  shows "Limit_Override_init (region @ ''/'' @ service @ ''/'' @ limit_name @ ''='' @ decimal v) =
    Inr \<lparr>ov_region = region, ov_service = service, ov_limit_name = limit_name, ov_value = v\<rparr>"
proof -
  define left where "left = region @ ''/'' @ service @ ''/'' @ limit_name"
  define item where "item = left @ CHR ''='' # decimal v"
  have no: "CHR ''='' \<notin> set left" using assms by (simp add: left_def)
  have no': "\<forall>c \<in> set left. c \<noteq> CHR ''=''" using no by auto
  have tw: "takeWhile (\<lambda>c. c \<noteq> CHR ''='') item = left"
    using no' by (simp add: item_def)
  have dw: "tl (dropWhile (\<lambda>c. c \<noteq> CHR ''='') item) = decimal v"
    using no' by (simp add: item_def)
  have r: "takeWhile (\<lambda>c. c \<noteq> CHR ''='') (decimal v) = decimal v"
    using decimal_no_eq [of v] by (auto simp add: takeWhile_eq_all_conv)
  have parts: "split_on CHR ''/'' left = [region, service, limit_name]"
    using assms by (simp add: left_def split_on_first split_on_notin)
  have "CHR ''='' \<in> set item" by (simp add: item_def)
  from Limit_Override_init_eq [OF this]
  have "Limit_Override_init item =
    Inr \<lparr>ov_region = region, ov_service = service, ov_limit_name = limit_name, ov_value = v\<rparr>"
    by (simp add: tw dw r parts py_int_decimal Let_def)
  then show ?thesis by (simp add: item_def left_def)
qed

lemma example_line:
  "Limit_Override_init ''us-east-1/ec2/On-Demand m5.large=50'' =
     Inr \<lparr>ov_region = ''us-east-1'', ov_service = ''ec2'',
          ov_limit_name = ''On-Demand m5.large'', ov_value = 50\<rparr>"
  by code_simp

lemma overrides_of_lines_raises:
  assumes "CHR ''='' \<in> set item" "item \<in> set lines" "Limit_Override_init item = Inl e"
  shows "\<exists>e'. overrides_of_lines lines = Inl e'"
proof -
  from assms(1,2) have "item \<in> set (filter (\<lambda>item. CHR ''='' \<in> set item) lines)" by simp
  from new_overrides_raises [OF this assms(3), of 0] show ?thesis
    by (auto simp add: overrides_of_lines_def)
qed

section \<open>Override parser: skipping, parsing, failing\<close>

text \<open>
  C7. A line without an equals sign, a blank line included, is skipped: it creates no
  object and raises nothing, wherever it stands among the lines. A well-formed line, made
  of a region, a service and a limit name (none of which holds a slash or an equals
  sign) joined by slashes, an equals sign and the decimal numeral of an integer, parses
  to the record of exactly these four fields, and a text of this one line gives one
  object with these fields. The line \<^verbatim>\<open>us-east-1/ec2/On-Demand m5.large=50\<close> parses
  to region \<^verbatim>\<open>us-east-1\<close>, service \<^verbatim>\<open>ec2\<close>, limit name \<^verbatim>\<open>On-Demand m5.large\<close> and
  value 50.
\<close>

theorem override_parser_skips_and_parses:
  "(CHR ''='' \<notin> set item \<longrightarrow>
      overrides_of_lines (xs @ item # ys) = overrides_of_lines (xs @ ys) \<and>
      overrides_of_lines [item] = Inr {}) \<and>
   (CHR ''/'' \<notin> set region \<and> CHR ''='' \<notin> set region \<and>
    CHR ''/'' \<notin> set service \<and> CHR ''='' \<notin> set service \<and>
    CHR ''/'' \<notin> set limit_name \<and> CHR ''='' \<notin> set limit_name \<longrightarrow>
      Limit_Override_init (region @ ''/'' @ service @ ''/'' @ limit_name @ ''='' @ decimal v) =
        Inr \<lparr>ov_region = region, ov_service = service, ov_limit_name = limit_name, ov_value = v\<rparr> \<and>
      overrides_of_lines [region @ ''/'' @ service @ ''/'' @ limit_name @ ''='' @ decimal v] =
        Inr {(0, \<lparr>ov_region = region, ov_service = service, ov_limit_name = limit_name,
                   ov_value = v\<rparr>)}) \<and>
   Limit_Override_init ''us-east-1/ec2/On-Demand m5.large=50'' =
     Inr \<lparr>ov_region = ''us-east-1'', ov_service = ''ec2'',
          ov_limit_name = ''On-Demand m5.large'', ov_value = 50\<rparr>"
proof (intro conjI impI)
  assume "CHR ''='' \<notin> set item"
  then show "overrides_of_lines (xs @ item # ys) = overrides_of_lines (xs @ ys)"
    by (rule overrides_of_lines_skip)
  show "overrides_of_lines [item] = Inr {}"
    using \<open>CHR ''='' \<notin> set item\<close> by (simp add: overrides_of_lines_def)
next
  assume wf: "CHR ''/'' \<notin> set region \<and> CHR ''='' \<notin> set region \<and>
    CHR ''/'' \<notin> set service \<and> CHR ''='' \<notin> set service \<and>
    CHR ''/'' \<notin> set limit_name \<and> CHR ''='' \<notin> set limit_name"
  then show init: "Limit_Override_init (region @ ''/'' @ service @ ''/'' @ limit_name @ ''='' @ decimal v) =
        Inr \<lparr>ov_region = region, ov_service = service, ov_limit_name = limit_name, ov_value = v\<rparr>"
    by (intro well_formed_line) simp_all
  then show "overrides_of_lines [region @ ''/'' @ service @ ''/'' @ limit_name @ ''='' @ decimal v] =
        Inr {(0, \<lparr>ov_region = region, ov_service = service, ov_limit_name = limit_name,
                   ov_value = v\<rparr>)}"
    by (simp add: overrides_of_lines_def)
next
  show "Limit_Override_init ''us-east-1/ec2/On-Demand m5.large=50'' =
     Inr \<lparr>ov_region = ''us-east-1'', ov_service = ''ec2'',
          ov_limit_name = ''On-Demand m5.large'', ov_value = 50\<rparr>"
    by (rule example_line)
qed

theorem override_parser_skips_and_parses_witness:
  "overrides_of_lines ([''a/b/c=1''] @ ''no-equals-sign'' # [[]]) = overrides_of_lines ([''a/b/c=1''] @ [[]]) \<and>
   overrides_of_lines [''no-equals-sign''] = Inr {} \<and>
   Limit_Override_init (''eu-west-1'' @ ''/'' @ ''rds'' @ ''/'' @ ''DB instances'' @ ''='' @ decimal (- 7)) =
     Inr \<lparr>ov_region = ''eu-west-1'', ov_service = ''rds'', ov_limit_name = ''DB instances'',
          ov_value = - 7\<rparr>"
proof -
  have h1: "CHR ''='' \<notin> set ''no-equals-sign''" by simp
  have h2: "CHR ''/'' \<notin> set ''eu-west-1'' \<and> CHR ''='' \<notin> set ''eu-west-1'' \<and>
    CHR ''/'' \<notin> set ''rds'' \<and> CHR ''='' \<notin> set ''rds'' \<and>
    CHR ''/'' \<notin> set ''DB instances'' \<and> CHR ''='' \<notin> set ''DB instances''" by simp
  note t = override_parser_skips_and_parses [of "''no-equals-sign''" "[''a/b/c=1'']" "[[]]"
      "''eu-west-1''" "''rds''" "''DB instances''" "- 7"]
  from t h1 have a: "overrides_of_lines ([''a/b/c=1''] @ ''no-equals-sign'' # [[]]) =
      overrides_of_lines ([''a/b/c=1''] @ [[]]) \<and> overrides_of_lines [''no-equals-sign''] = Inr {}"
    by blast
  from t h2 have b: "Limit_Override_init (''eu-west-1'' @ ''/'' @ ''rds'' @ ''/'' @ ''DB instances'' @ ''='' @ decimal (- 7)) =
     Inr \<lparr>ov_region = ''eu-west-1'', ov_service = ''rds'', ov_limit_name = ''DB instances'',
          ov_value = - 7\<rparr>"
    by blast
  from a b show ?thesis by blast
qed

text \<open>
  C8, as stated, fails: a line with four parts before the equals sign, and a line with a
  second equals sign after the integer, are both accepted; the parser takes the first
  three parts and the text between the first two equals signs.
\<close>

theorem override_parser_accepts_extra_parts:
  "Limit_Override_init ''a/b/c/d=5'' =
     Inr \<lparr>ov_region = ''a'', ov_service = ''b'', ov_limit_name = ''c'', ov_value = 5\<rparr> \<and>
   Limit_Override_init ''a/b/c=5=6'' =
     Inr \<lparr>ov_region = ''a'', ov_service = ''b'', ov_limit_name = ''c'', ov_value = 5\<rparr>"
  by code_simp

text \<open>
  C8, amended. For a line with an equals sign, let the left part be the text before the
  first equals sign and the right part the text between the first equals sign and the
  next one (or the end of the line). The constructor raises exactly when the left part
  has fewer than three parts between slashes, in which case it raises \<^verbatim>\<open>IndexError\<close>,
  or the right part is not an integer literal, in which case it raises \<^verbatim>\<open>ValueError\<close>.
  An integer literal is whitespace, an optional sign, groups of digits joined by single
  underscores, whitespace: these are the strings \<^verbatim>\<open>int\<close> reads, and a right part
  holding any other character, or no digit, is refused. So \<^verbatim>\<open>a/b/c=notanumber\<close>,
  \<^verbatim>\<open>a/b/c=\<close> and \<^verbatim>\<open>a/b/c=1.5\<close> raise \<^verbatim>\<open>ValueError\<close>. When a line of the text
  makes the constructor raise, the parser raises to its caller and returns no set.
\<close>

theorem override_parser_fails_fast:
  assumes "CHR ''='' \<in> set item"
  shows
    "((\<exists>e. Limit_Override_init item = Inl e) \<longleftrightarrow>
        length (split_on CHR ''/'' (takeWhile (\<lambda>c. c \<noteq> CHR ''='') item)) < 3 \<or>
        \<not> int_literal (takeWhile (\<lambda>c. c \<noteq> CHR ''='') (tl (dropWhile (\<lambda>c. c \<noteq> CHR ''='') item)))) \<and>
     (length (split_on CHR ''/'' (takeWhile (\<lambda>c. c \<noteq> CHR ''='') item)) < 3 \<longrightarrow>
        Limit_Override_init item = Inl IndexError) \<and>
     (\<not> length (split_on CHR ''/'' (takeWhile (\<lambda>c. c \<noteq> CHR ''='') item)) < 3 \<and>
      \<not> int_literal (takeWhile (\<lambda>c. c \<noteq> CHR ''='') (tl (dropWhile (\<lambda>c. c \<noteq> CHR ''='') item))) \<longrightarrow>
        Limit_Override_init item = Inl ValueError) \<and>
     (item \<in> set lines \<and> (\<exists>e. Limit_Override_init item = Inl e) \<longrightarrow>
        (\<exists>e. overrides_of_lines lines = Inl e)) \<and>
     (int_literal s \<longleftrightarrow> (\<exists>v. py_int s = Inr v)) \<and>
     (\<not> int_literal s \<longleftrightarrow> py_int s = Inl ValueError) \<and>
     (c \<in> set s \<and> \<not> is_space c \<and> \<not> is_digit c \<and> c \<noteq> CHR ''+'' \<and> c \<noteq> CHR ''-'' \<and>
      c \<noteq> CHR ''_'' \<longrightarrow> \<not> int_literal s) \<and>
     Limit_Override_init ''a/b/c=notanumber'' = Inl ValueError \<and>
     Limit_Override_init ''a/b/c='' = Inl ValueError \<and>
     Limit_Override_init ''a/b/c=1.5'' = Inl ValueError"
proof -
  let ?right = "takeWhile (\<lambda>c. c \<noteq> CHR ''='') (tl (dropWhile (\<lambda>c. c \<noteq> CHR ''='') item))"
  note eq = Limit_Override_init_eq [OF assms, unfolded Let_def]
  have lit: "\<not> int_literal t \<longleftrightarrow> py_int t = Inl ValueError" for t
    using not_literal_ValueError [of t] py_int_literal_iff [of t] by auto
  have 1: "length (split_on CHR ''/'' (takeWhile (\<lambda>c. c \<noteq> CHR ''='') item)) < 3 \<longrightarrow>
        Limit_Override_init item = Inl IndexError"
    by (simp add: eq)
  have 2: "\<not> length (split_on CHR ''/'' (takeWhile (\<lambda>c. c \<noteq> CHR ''='') item)) < 3 \<and>
      \<not> int_literal ?right \<longrightarrow> Limit_Override_init item = Inl ValueError"
    by (auto simp add: eq lit)
  have 3: "(\<exists>e. Limit_Override_init item = Inl e) \<longrightarrow>
        length (split_on CHR ''/'' (takeWhile (\<lambda>c. c \<noteq> CHR ''='') item)) < 3 \<or>
        \<not> int_literal ?right"
  proof (intro impI)
    assume a: "\<exists>e. Limit_Override_init item = Inl e"
    show "length (split_on CHR ''/'' (takeWhile (\<lambda>c. c \<noteq> CHR ''='') item)) < 3 \<or>
        \<not> int_literal ?right"
    proof (cases "py_int ?right")
      case (Inl e)
      then have "\<not> int_literal ?right" using py_int_literal_iff [of ?right] by auto
      then show ?thesis by blast
    next
      case (Inr v)
      with a show ?thesis by (auto simp add: eq split: if_splits)
    qed
  qed
  have 4: "item \<in> set lines \<and> (\<exists>e. Limit_Override_init item = Inl e) \<longrightarrow>
        (\<exists>e. overrides_of_lines lines = Inl e)"
    using overrides_of_lines_raises [OF assms] by blast
  have 5: "int_literal s \<longleftrightarrow> (\<exists>v. py_int s = Inr v)" by (rule py_int_literal_iff)
  have 6: "\<not> int_literal s \<longleftrightarrow> py_int s = Inl ValueError" by (rule lit)
  have 7: "c \<in> set s \<and> \<not> is_space c \<and> \<not> is_digit c \<and> c \<noteq> CHR ''+'' \<and> c \<noteq> CHR ''-'' \<and>
      c \<noteq> CHR ''_'' \<longrightarrow> \<not> int_literal s"
    using literal_chars [of s c] by blast
  have 8: "Limit_Override_init ''a/b/c=notanumber'' = Inl ValueError" by code_simp
  have 9: "Limit_Override_init ''a/b/c='' = Inl ValueError" by code_simp
  have 10: "Limit_Override_init ''a/b/c=1.5'' = Inl ValueError" by code_simp
  from 1 2 3 4 5 6 7 8 9 10 show ?thesis by blast
qed

theorem override_parser_fails_fast_witness:
  "Limit_Override_init ''bad/format=notanumber'' = Inl IndexError \<and>
   (\<exists>e. overrides_of_lines [''a/b/c=1'', ''bad/format=notanumber''] = Inl e) \<and>
   \<not> int_literal ''x7'' \<and>
   Limit_Override_init ''us-east-1/ec2/Running On-Demand m5.large=x7'' = Inl ValueError \<and>
   (\<exists>e. overrides_of_lines [''a/b/c=1'', ''us-east-1/ec2/Running On-Demand m5.large=x7''] = Inl e)"
proof -
  have h1: "CHR ''='' \<in> set ''bad/format=notanumber''" by simp
  have h2: "length (split_on CHR ''/'' (takeWhile (\<lambda>c. c \<noteq> CHR ''='') ''bad/format=notanumber'')) < 3"
    by code_simp
  have h3: "''bad/format=notanumber'' \<in> set [''a/b/c=1'', ''bad/format=notanumber'']" by simp
  note t1 = override_parser_fails_fast [OF h1, of "[''a/b/c=1'', ''bad/format=notanumber'']"
      "''x7''" "CHR ''x''"]
  from t1 h2 h3 have a: "Limit_Override_init ''bad/format=notanumber'' = Inl IndexError \<and>
      (\<exists>e. overrides_of_lines [''a/b/c=1'', ''bad/format=notanumber''] = Inl e)"
    by blast
  have h4: "CHR ''x'' \<in> set ''x7'' \<and> \<not> is_space CHR ''x'' \<and> \<not> is_digit CHR ''x'' \<and>
      CHR ''x'' \<noteq> CHR ''+'' \<and> CHR ''x'' \<noteq> CHR ''-'' \<and> CHR ''x'' \<noteq> CHR ''_''"
    by (simp add: is_space_def is_digit_def)
  from t1 h4 have b: "\<not> int_literal ''x7''" by blast
  let ?item = "''us-east-1/ec2/Running On-Demand m5.large=x7''"
  have k1: "CHR ''='' \<in> set ?item" by simp
  have k2: "\<not> length (split_on CHR ''/'' (takeWhile (\<lambda>c. c \<noteq> CHR ''='') ?item)) < 3"
    by code_simp
  have k3: "takeWhile (\<lambda>c. c \<noteq> CHR ''='') (tl (dropWhile (\<lambda>c. c \<noteq> CHR ''='') ?item)) = ''x7''"
    by code_simp
  have k4: "?item \<in> set [''a/b/c=1'', ?item]" by simp
  note t2 = override_parser_fails_fast [OF k1, of "[''a/b/c=1'', ?item]" "''x7''" "CHR ''x''",
      unfolded k3]
  from t2 k2 b have c: "Limit_Override_init ?item = Inl ValueError" by blast
  with t2 k4 have d: "\<exists>e. overrides_of_lines [''a/b/c=1'', ?item] = Inl e" by blast
  from a b c d show ?thesis by blast
qed

section \<open>Facts about the objects the parser creates\<close>

lemma two_equal_lines:
  "get_configs_overrides (''a/b/c=1'' @ [CHR 0x0A] @ ''a/b/c=1'') =
     Inr {(0, \<lparr>ov_region = ''a'', ov_service = ''b'', ov_limit_name = ''c'', ov_value = 1\<rparr>),
          (Suc 0, \<lparr>ov_region = ''a'', ov_service = ''b'', ov_limit_name = ''c'', ov_value = 1\<rparr>)}"
  by code_simp

lemma overrides_of_lines_Inr:
  assumes "overrides_of_lines lines = Inr S"
  shows "card S = length (filter (\<lambda>item. CHR ''='' \<in> set item) lines) \<and>
    image_mset (\<lambda>obj. Inr (snd obj)) (mset_set S) =
      image_mset Limit_Override_init (filter_mset (\<lambda>item. CHR ''='' \<in> set item) (mset lines))"
proof -
  define items where "items = filter (\<lambda>item. CHR ''='' \<in> set item) lines"
  from assms obtain objs where objs: "new_overrides 0 items = Inr objs" and S: "S = set objs"
    by (auto simp add: overrides_of_lines_def items_def split: sum.splits)
  have d: "distinct objs" using objs by (rule new_overrides_distinct)
  have "card S = length items"
    using d new_overrides_length [OF objs] by (simp add: S distinct_card)
  moreover have "mset_set S = mset objs" using d by (simp add: S mset_set_set)
  moreover have "mset (map (\<lambda>obj. Inr (snd obj)) objs) = mset (map Limit_Override_init items)"
    by (simp only: new_overrides_attributes [OF objs])
  then have "image_mset (\<lambda>obj. Inr (snd obj)) (mset objs) = image_mset Limit_Override_init (mset items)"
    by simp
  ultimately show ?thesis by (simp add: items_def)
qed

lemma overrides_of_lines_permuted:
  assumes "overrides_of_lines lines = Inr S" "mset lines' = mset lines"
  shows "\<exists>S'. overrides_of_lines lines' = Inr S'"
proof -
  define items where "items = filter (\<lambda>item. CHR ''='' \<in> set item) lines"
  define items' where "items' = filter (\<lambda>item. CHR ''='' \<in> set item) lines'"
  from assms(1) obtain objs where objs: "new_overrides 0 items = Inr objs"
    by (auto simp add: overrides_of_lines_def items_def split: sum.splits)
  from assms(2) have "set lines' = set lines" by (rule mset_eq_setD)
  then have "set items' = set items" by (simp add: items_def items'_def)
  then have "\<And>item. item \<in> set items' \<Longrightarrow> \<exists>ov. Limit_Override_init item = Inr ov"
    using new_overrides_all_parse [OF objs] by simp
  from new_overrides_returns [OF this, where i = 0] obtain objs' where "new_overrides 0 items' = Inr objs'"
    by blast
  then show ?thesis by (simp add: overrides_of_lines_def items'_def)
qed


section \<open>Override parser: the set of overrides\<close>

text \<open>
  C9, as stated, fails: two equal lines give two objects, which the set keeps apart
  because the class compares by identity; their four attributes are the same.
\<close>

theorem overrides_duplicates_do_not_collapse:
  "get_configs_overrides (''a/b/c=1'' @ [CHR 0x0A] @ ''a/b/c=1'') =
     Inr {(0, \<lparr>ov_region = ''a'', ov_service = ''b'', ov_limit_name = ''c'', ov_value = 1\<rparr>),
          (Suc 0, \<lparr>ov_region = ''a'', ov_service = ''b'', ov_limit_name = ''c'', ov_value = 1\<rparr>)} \<and>
   card {(0 :: nat, \<lparr>ov_region = ''a'', ov_service = ''b'', ov_limit_name = ''c'', ov_value = 1 :: int\<rparr>),
         (Suc 0, \<lparr>ov_region = ''a'', ov_service = ''b'', ov_limit_name = ''c'', ov_value = 1\<rparr>)} = 2"
proof (rule conjI)
  show "get_configs_overrides (''a/b/c=1'' @ [CHR 0x0A] @ ''a/b/c=1'') =
     Inr {(0, \<lparr>ov_region = ''a'', ov_service = ''b'', ov_limit_name = ''c'', ov_value = 1\<rparr>),
          (Suc 0, \<lparr>ov_region = ''a'', ov_service = ''b'', ov_limit_name = ''c'', ov_value = 1\<rparr>)}"
    by (rule two_equal_lines)
  show "card {(0 :: nat, \<lparr>ov_region = ''a'', ov_service = ''b'', ov_limit_name = ''c'', ov_value = 1 :: int\<rparr>),
         (Suc 0, \<lparr>ov_region = ''a'', ov_service = ''b'', ov_limit_name = ''c'', ov_value = 1\<rparr>)} = 2"
    by simp
qed

text \<open>
  C9, amended. When the parser returns, its result is a set of objects compared by
  identity that holds exactly one object per line with an equals sign: lines that parse
  to the same four attributes give as many objects, all kept. The attributes held, counted
  with their multiplicity, are those of the qualifying lines, and so do not depend on the
  order of the lines: the same lines in another order parse as well, to objects with the
  same attributes as often.
\<close>

theorem overrides_one_object_per_line:
  assumes "overrides_of_lines lines = Inr S"
  shows
    "card S = length (filter (\<lambda>item. CHR ''='' \<in> set item) lines) \<and>
     image_mset (\<lambda>obj. Inr (snd obj)) (mset_set S) =
       image_mset Limit_Override_init (filter_mset (\<lambda>item. CHR ''='' \<in> set item) (mset lines)) \<and>
     (mset lines' = mset lines \<longrightarrow>
        (\<exists>S'. overrides_of_lines lines' = Inr S' \<and>
              image_mset snd (mset_set S') = image_mset snd (mset_set S)))"
proof (intro conjI impI)
  note here = overrides_of_lines_Inr [OF assms]
  from here show "card S = length (filter (\<lambda>item. CHR ''='' \<in> set item) lines)" ..
  from here show "image_mset (\<lambda>obj. Inr (snd obj)) (mset_set S) =
       image_mset Limit_Override_init (filter_mset (\<lambda>item. CHR ''='' \<in> set item) (mset lines))" ..
  assume perm: "mset lines' = mset lines"
  from overrides_of_lines_permuted [OF assms perm] obtain S' where S': "overrides_of_lines lines' = Inr S'" ..
  from overrides_of_lines_Inr [OF S'] here perm
  have "image_mset (\<lambda>obj. Inr (snd obj) :: exn + Limit_Override) (mset_set S') =
      image_mset (\<lambda>obj. Inr (snd obj)) (mset_set S)"
    by simp
  then have "image_mset (Inr :: Limit_Override \<Rightarrow> exn + Limit_Override) (image_mset snd (mset_set S')) =
      image_mset Inr (image_mset snd (mset_set S))"
    by (simp add: multiset.map_comp comp_def)
  then have "image_mset snd (mset_set S') = image_mset snd (mset_set S)"
    by (rule multiset.inj_map_strong [rotated]) simp
  with S' show "\<exists>S'. overrides_of_lines lines' = Inr S' \<and>
              image_mset snd (mset_set S') = image_mset snd (mset_set S)"
    by blast
qed

lemma two_lines_parse:
  "overrides_of_lines [''a/b/c=1'', ''x/y/z=2''] =
     Inr {(0, \<lparr>ov_region = ''a'', ov_service = ''b'', ov_limit_name = ''c'', ov_value = 1\<rparr>),
          (Suc 0, \<lparr>ov_region = ''x'', ov_service = ''y'', ov_limit_name = ''z'', ov_value = 2\<rparr>)}"
  by code_simp

theorem overrides_one_object_per_line_witness:
  "card {(0 :: nat, \<lparr>ov_region = ''a'', ov_service = ''b'', ov_limit_name = ''c'', ov_value = 1 :: int\<rparr>),
         (Suc 0, \<lparr>ov_region = ''x'', ov_service = ''y'', ov_limit_name = ''z'', ov_value = 2\<rparr>)} =
     length (filter (\<lambda>item. CHR ''='' \<in> set item) [''a/b/c=1'', ''x/y/z=2'']) \<and>
   (\<exists>S'. overrides_of_lines [''x/y/z=2'', ''a/b/c=1''] = Inr S' \<and>
      image_mset snd (mset_set S') =
      image_mset snd (mset_set
        {(0 :: nat, \<lparr>ov_region = ''a'', ov_service = ''b'', ov_limit_name = ''c'', ov_value = 1 :: int\<rparr>),
         (Suc 0, \<lparr>ov_region = ''x'', ov_service = ''y'', ov_limit_name = ''z'', ov_value = 2\<rparr>)}))"
proof -
  have perm: "mset [''x/y/z=2'', ''a/b/c=1''] = mset [''a/b/c=1'', ''x/y/z=2'']" by simp
  from overrides_one_object_per_line [OF two_lines_parse, of "[''x/y/z=2'', ''a/b/c=1'']"] perm
  show ?thesis by blast
qed

section \<open>Facts about the gauge registry\<close>

lemma grows_refl: "grows gs gs"
  by (simp add: grows_def same_series_def)

lemma grows_trans: "grows gs gs' \<Longrightarrow> grows gs' gs'' \<Longrightarrow> grows gs gs''"
  unfolding grows_def same_series_def by (metis (no_types, opaque_lifting))

lemma grows_dom: "grows gs gs' \<Longrightarrow> gs q \<noteq> None \<Longrightarrow> gs' q \<noteq> None"
  unfolding grows_def by fastforce

lemma gauge_fst: "fst (gauge path extra_labels gs) = normalize_path path"
  by (simp add: gauge_def normalize_path_def Let_def split: option.split)

lemma gauge_None:
  "gs (normalize_path path) = None \<Longrightarrow>
     gauge path extra_labels gs =
       (normalize_path path,
        gs(normalize_path path \<mapsto>
          \<lparr>gauge_name = normalize_path path,
           labelnames = [''region'', ''type''] @ (case extra_labels of None \<Rightarrow> [] | Some ls \<Rightarrow> ls),
           samples = Map.empty\<rparr>))"
  by (simp add: gauge_def normalize_path_def Let_def Gauge_new_def)

lemma gauge_Some:
  "gs (normalize_path path) = Some g \<Longrightarrow> gauge path extra_labels gs = (normalize_path path, gs)"
  by (simp add: gauge_def normalize_path_def Let_def)

lemma gauge_keeps: "gs q = Some g \<Longrightarrow> snd (gauge path extra_labels gs) q = Some g"
  by (cases "gs (normalize_path path)") (auto simp add: gauge_None gauge_Some)

lemma gauge_registered: "snd (gauge path extra_labels gs) (normalize_path path) \<noteq> None"
  by (cases "gs (normalize_path path)") (auto simp add: gauge_None gauge_Some)

lemma gauge_grows: "grows gs (snd (gauge path extra_labels gs))"
  unfolding grows_def using gauge_keeps by (fastforce simp add: same_series_def)

lemma gauge_eq:
  "gauge path extra_labels gs =
     (normalize_path path,
      gs(normalize_path path \<mapsto>
        (case gs (normalize_path path) of
           None \<Rightarrow> Gauge_new (normalize_path path)
             ([''region'', ''type''] @ (case extra_labels of None \<Rightarrow> [] | Some ls \<Rightarrow> ls))
         | Some g \<Rightarrow> g)))"
  by (cases "gs (normalize_path path)")
    (simp_all add: gauge_None gauge_Some Gauge_new_def fun_upd_idem)

lemma and_next_simps:
  "and_next (None, gs) f = f gs"
  "and_next (Some e, gs) f = (Some e, gs)"
  by (simp_all add: and_next_def)

lemma and_next_cases:
  "and_next r f = (case fst r of None \<Rightarrow> f (snd r) | Some e \<Rightarrow> (Some e, snd r))"
  by (cases r) (simp add: and_next_def split: option.split)

lemma and_next_grows:
  "grows gs (snd r) \<Longrightarrow> (\<And>gs'. grows gs' (snd (f gs'))) \<Longrightarrow> grows gs (snd (and_next r f))"
  by (cases r) (auto simp add: and_next_def split: option.split intro: grows_trans)

lemma labels_set_Some:
  "gs g = Some series \<Longrightarrow> sort (map fst kwargs) = sort (labelnames series) \<Longrightarrow>
     labels_set g kwargs v gs =
       (None, gs(g \<mapsto> series\<lparr>samples := (samples series)(kwargs \<mapsto> v)\<rparr>))"
  by (simp add: labels_set_def)

lemma labels_set_refused:
  "gs g = Some series \<Longrightarrow> sort (map fst kwargs) \<noteq> sort (labelnames series) \<Longrightarrow>
     labels_set g kwargs v gs = (Some ValueError, gs)"
  by (simp add: labels_set_def)

lemma labels_set_error: "fst (labels_set g kwargs v gs) = Some e \<Longrightarrow> e = ValueError"
  by (auto simp add: labels_set_def split: option.splits if_splits)

lemma labels_set_grows: "grows gs (snd (labels_set g kwargs v gs))"
  unfolding grows_def same_series_def labels_set_def by (auto split: option.split)

lemma for_each_grows:
  "(\<And>x s. grows s (snd (body x s))) \<Longrightarrow> grows gs (snd (for_each body xs gs))"
proof (induction xs arbitrary: gs)
  case Nil
  show ?case by (simp add: grows_refl)
next
  case (Cons x xs)
  show ?case
    unfolding for_each.simps
    by (rule and_next_grows) (rule Cons.prems, rule Cons.IH, rule Cons.prems)
qed

lemma for_each_error:
  "(\<And>x s e. fst (body x s) = Some e \<Longrightarrow> P e) \<Longrightarrow> fst (for_each body xs gs) = Some e \<Longrightarrow> P e"
proof (induction xs arbitrary: gs)
  case Nil
  then show ?case by simp
next
  case (Cons x xs)
  obtain r gs1 where b: "body x gs = (r, gs1)" by (cases "body x gs")
  show ?case
  proof (cases r)
    case None
    with Cons.prems(2) b have "fst (for_each body xs gs1) = Some e"
      by (simp add: and_next_simps)
    with Cons.IH Cons.prems(1) show ?thesis by blast
  next
    case (Some e')
    with Cons.prems(2) b have "e = e'" by (simp add: and_next_simps)
    moreover have "fst (body x gs) = Some e'" by (simp add: b Some)
    ultimately show ?thesis using Cons.prems(1) by blast
  qed
qed

lemma for_each_labels_set:
  "gs g = Some series \<Longrightarrow>
   (\<And>r. r \<in> set rs \<Longrightarrow> sort (map fst (key r)) = sort (labelnames series)) \<Longrightarrow>
     for_each (\<lambda>r. labels_set g (key r) (val r)) rs gs =
       (None, gs(g \<mapsto> series\<lparr>samples := samples series ++ map_of (rev (map (\<lambda>r. (key r, val r)) rs))\<rparr>))"
proof (induction rs arbitrary: gs series)
  case Nil
  then show ?case by (simp add: fun_upd_idem)
next
  case (Cons r rs)
  let ?series = "series\<lparr>samples := (samples series)(key r \<mapsto> val r)\<rparr>"
  have step: "labels_set g (key r) (val r) gs = (None, gs(g \<mapsto> ?series))"
    using Cons.prems by (intro labels_set_Some) simp_all
  have eq: "(samples series)(key r \<mapsto> val r) ++ map_of (rev (map (\<lambda>r. (key r, val r)) rs)) =
      samples series ++ map_of (rev (map (\<lambda>r. (key r, val r)) (r # rs)))"
    by (simp add: map_add_upd_left)
  have "for_each (\<lambda>r. labels_set g (key r) (val r)) (r # rs) gs =
      for_each (\<lambda>r. labels_set g (key r) (val r)) rs (gs(g \<mapsto> ?series))"
    by (simp only: for_each.simps step and_next_simps)
  also have "\<dots> = (None, (gs(g \<mapsto> ?series))(g \<mapsto>
      ?series\<lparr>samples := samples ?series ++ map_of (rev (map (\<lambda>r. (key r, val r)) rs))\<rparr>))"
    using Cons.prems(2) by (intro Cons.IH) simp_all
  also have "\<dots> = (None, gs(g \<mapsto>
      series\<lparr>samples := samples series ++ map_of (rev (map (\<lambda>r. (key r, val r)) (r # rs)))\<rparr>))"
    by (simp only: fun_upd_upd eq [symmetric]) simp
  finally show ?case .
qed

lemma update_ec2_limits_grows: "grows gs (snd (update_ec2_limits g region limits gs))"
proof (induction limits arbitrary: gs)
  case Nil
  show ?case by (simp add: grows_refl)
next
  case (Cons a limits)
  obtain limit_name limit where a: "a = (limit_name, limit)" by (cases a)
  show ?case
  proof (cases "instance_type_of limit_name")
    case (Inl e)
    then show ?thesis by (simp add: a grows_refl)
  next
    case (Inr instance_type)
    show ?thesis
      unfolding a update_ec2_limits.simps Inr sum.case
      by (intro and_next_grows labels_set_grows for_each_grows Cons.IH)
  qed
qed

lemma update_ec2_on_demand_grows: "grows gs (snd (update_ec2_on_demand region limits gs))"
proof (cases "limits = []")
  case True
  then show ?thesis by (simp add: update_ec2_on_demand_def grows_refl)
next
  case False
  obtain g gs1 where g: "gauge ec2_path (Some [''instance_type'']) gs = (g, gs1)"
    by (cases "gauge ec2_path (Some [''instance_type'']) gs")
  then have "grows gs gs1" using gauge_grows [of gs ec2_path "Some [''instance_type'']"] by simp
  moreover have "grows gs1 (snd (update_ec2_limits g region (sort_key fst limits) gs1))"
    by (rule update_ec2_limits_grows)
  ultimately show ?thesis
    using False by (simp add: update_ec2_on_demand_def g) (rule grows_trans)
qed

lemma update_service_grows: "grows gs (snd (update_service path usage limit region gs))"
proof -
  obtain g gs1 where g: "gauge path None gs = (g, gs1)" by (cases "gauge path None gs")
  then have "grows gs gs1" using gauge_grows [of gs path None] by simp
  moreover have "grows gs1 (snd (and_next (labels_set g [(''region'', region), (''type'', ''limit'')] limit gs1)
      (\<lambda>gs2. for_each (\<lambda>resource. labels_set g
           [(''region'', region), (''type'', metric_type_of resource)] (get_value resource))
           usage gs2)))"
    by (intro and_next_grows labels_set_grows for_each_grows)
  ultimately show ?thesis
    by (simp add: update_service_def g) (rule grows_trans)
qed

lemma update_services_grows: "grows gs (snd (update_services region services gs))"
proof (induction services arbitrary: gs)
  case Nil
  show ?case by (simp add: grows_refl)
next
  case (Cons a services)
  obtain service svc_limits where a: "a = (service, svc_limits)" by (cases a)
  show ?case
    unfolding a update_services.simps Let_def
    by (intro and_next_grows update_ec2_on_demand_grows for_each_grows Cons.IH)
      (auto simp add: update_service_grows split: prod.split)
qed

lemma update_try_grows: "grows gs (snd (update_try checker region gs))"
  by (simp add: update_try_def grows_refl update_services_grows split: option.split)

section \<open>Gauge registry\<close>

text \<open>
  C4. \<^verbatim>\<open>gauge\<close> gets or creates. When the normalized path is not registered, the call
  registers under it a new series named by it, with the label names \<^verbatim>\<open>region\<close> and
  \<^verbatim>\<open>type\<close> followed by the extra labels given, and returns it. When it is registered,
  the call returns the registered series and leaves the registry as it is, whatever
  extra labels are passed; so does every later call for a path with the same normalized
  form. Every series registered before a call is registered after it, unchanged. The
  registry only grows, and no series changes its name or label names: not by \<^verbatim>\<open>gauge\<close>,
  not by setting a value (accepted or refused), not by the translation of a whole report.
\<close>

theorem gauge_get_or_create:
  "(gs (normalize_path path) = None \<longrightarrow>
      gauge path extra_labels gs =
        (normalize_path path,
         gs(normalize_path path \<mapsto>
           \<lparr>gauge_name = normalize_path path,
            labelnames = [''region'', ''type''] @ (case extra_labels of None \<Rightarrow> [] | Some ls \<Rightarrow> ls),
            samples = Map.empty\<rparr>))) \<and>
   (gs (normalize_path path) = Some g \<longrightarrow>
      gauge path extra_labels gs = (normalize_path path, gs)) \<and>
   (normalize_path path' = normalize_path path \<longrightarrow>
      gauge path' extra_labels' (snd (gauge path extra_labels gs)) =
        (normalize_path path, snd (gauge path extra_labels gs))) \<and>
   (gs q = Some g' \<longrightarrow> snd (gauge path extra_labels gs) q = Some g') \<and>
   grows gs (snd (gauge path extra_labels gs)) \<and>
   grows gs (snd (labels_set h kwargs v gs)) \<and>
   grows gs (snd (update_try checker region gs))"
proof (intro conjI impI)
  assume "gs (normalize_path path) = None"
  then show "gauge path extra_labels gs =
        (normalize_path path,
         gs(normalize_path path \<mapsto>
           \<lparr>gauge_name = normalize_path path,
            labelnames = [''region'', ''type''] @ (case extra_labels of None \<Rightarrow> [] | Some ls \<Rightarrow> ls),
            samples = Map.empty\<rparr>))"
    by (rule gauge_None)
next
  assume "gs (normalize_path path) = Some g"
  then show "gauge path extra_labels gs = (normalize_path path, gs)"
    by (rule gauge_Some)
next
  assume same: "normalize_path path' = normalize_path path"
  from gauge_registered [of path extra_labels gs]
  obtain g1 where "snd (gauge path extra_labels gs) (normalize_path path') = Some g1"
    by (auto simp add: same)
  from gauge_Some [of "snd (gauge path extra_labels gs)" path' g1 extra_labels', OF this] same
  show "gauge path' extra_labels' (snd (gauge path extra_labels gs)) =
        (normalize_path path, snd (gauge path extra_labels gs))"
    by simp
next
  assume "gs q = Some g'"
  then show "snd (gauge path extra_labels gs) q = Some g'" by (rule gauge_keeps)
next
  show "grows gs (snd (gauge path extra_labels gs))" by (rule gauge_grows)
  show "grows gs (snd (labels_set h kwargs v gs))" by (rule labels_set_grows)
  show "grows gs (snd (update_try checker region gs))" by (rule update_try_grows)
qed

theorem gauge_get_or_create_witness:
  "fst (gauge ''S3.Buckets'' (Some [''instance_type''])
      [''ec2_x'' \<mapsto> \<lparr>gauge_name = ''ec2_x'', labelnames = [''region'', ''type''], samples = Map.empty\<rparr>]) =
     ''s3_buckets'' \<and>
   map_option labelnames
     (snd (gauge ''S3.Buckets'' (Some [''instance_type''])
        [''ec2_x'' \<mapsto> \<lparr>gauge_name = ''ec2_x'', labelnames = [''region'', ''type''], samples = Map.empty\<rparr>])
       ''s3_buckets'') = Some [''region'', ''type'', ''instance_type''] \<and>
   gauge ''EC2.X'' (Some [''instance_type''])
      [''ec2_x'' \<mapsto> \<lparr>gauge_name = ''ec2_x'', labelnames = [''region'', ''type''], samples = Map.empty\<rparr>] =
     (''ec2_x'',
      [''ec2_x'' \<mapsto> \<lparr>gauge_name = ''ec2_x'', labelnames = [''region'', ''type''], samples = Map.empty\<rparr>]) \<and>
   gauge ''ec2 x'' None
      (snd (gauge ''EC2.X'' (Some [''instance_type''])
        [''ec2_x'' \<mapsto> \<lparr>gauge_name = ''ec2_x'', labelnames = [''region'', ''type''], samples = Map.empty\<rparr>])) =
     (''ec2_x'',
      snd (gauge ''EC2.X'' (Some [''instance_type''])
        [''ec2_x'' \<mapsto> \<lparr>gauge_name = ''ec2_x'', labelnames = [''region'', ''type''], samples = Map.empty\<rparr>]))"
proof -
  let ?G = "\<lparr>gauge_name = ''ec2_x'', labelnames = [''region'', ''type''], samples = Map.empty\<rparr>"
  have n1: "normalize_path ''S3.Buckets'' = ''s3_buckets''" by code_simp
  have n2: "normalize_path ''EC2.X'' = ''ec2_x''" by code_simp
  have n3: "normalize_path ''ec2 x'' = ''ec2_x''" by code_simp
  have h1: "[''ec2_x'' \<mapsto> ?G] (normalize_path ''S3.Buckets'') = None" by (simp add: n1)
  have h2: "[''ec2_x'' \<mapsto> ?G] (normalize_path ''EC2.X'') = Some ?G" by (simp add: n2)
  have h3: "normalize_path ''ec2 x'' = normalize_path ''EC2.X''" by (simp add: n2 n3)
  note t1 = gauge_get_or_create [of "[''ec2_x'' \<mapsto> ?G]" "''S3.Buckets''" "Some [''instance_type'']"
      ?G "''S3.Buckets''" None "''ec2_x''" ?G "''ec2_x''" "[]" 0
      "\<lparr>find_usage = None, get_limits = []\<rparr>" "''r''"]
  note t2 = gauge_get_or_create [of "[''ec2_x'' \<mapsto> ?G]" "''EC2.X''" "Some [''instance_type'']"
      ?G "''ec2 x''" None "''ec2_x''" ?G "''ec2_x''" "[]" 0
      "\<lparr>find_usage = None, get_limits = []\<rparr>" "''r''"]
  from t1 h1 have "gauge ''S3.Buckets'' (Some [''instance_type'']) [''ec2_x'' \<mapsto> ?G] =
      (normalize_path ''S3.Buckets'',
        [''ec2_x'' \<mapsto> ?G, normalize_path ''S3.Buckets'' \<mapsto>
         \<lparr>gauge_name = normalize_path ''S3.Buckets'',
          labelnames = [''region'', ''type''] @
            (case Some [''instance_type''] of None \<Rightarrow> [] | Some ls \<Rightarrow> ls),
          samples = Map.empty\<rparr>])"
    by blast
  then have a: "gauge ''S3.Buckets'' (Some [''instance_type'']) [''ec2_x'' \<mapsto> ?G] =
      (''s3_buckets'', [''ec2_x'' \<mapsto> ?G, ''s3_buckets'' \<mapsto>
         \<lparr>gauge_name = ''s3_buckets'', labelnames = [''region'', ''type'', ''instance_type''],
          samples = Map.empty\<rparr>])"
    by (simp add: n1)
  from t2 h2 have "gauge ''EC2.X'' (Some [''instance_type'']) [''ec2_x'' \<mapsto> ?G] =
      (normalize_path ''EC2.X'', [''ec2_x'' \<mapsto> ?G])"
    by blast
  then have b: "gauge ''EC2.X'' (Some [''instance_type'']) [''ec2_x'' \<mapsto> ?G] =
      (''ec2_x'', [''ec2_x'' \<mapsto> ?G])"
    by (simp only: n2)
  from t2 h3 have "gauge ''ec2 x'' None
      (snd (gauge ''EC2.X'' (Some [''instance_type'']) [''ec2_x'' \<mapsto> ?G])) =
     (normalize_path ''EC2.X'', snd (gauge ''EC2.X'' (Some [''instance_type'']) [''ec2_x'' \<mapsto> ?G]))"
    by blast
  then have c: "gauge ''ec2 x'' None
      (snd (gauge ''EC2.X'' (Some [''instance_type'']) [''ec2_x'' \<mapsto> ?G])) =
     (''ec2_x'', snd (gauge ''EC2.X'' (Some [''instance_type'']) [''ec2_x'' \<mapsto> ?G]))"
    by (simp only: n2)
  have a1: "fst (gauge ''S3.Buckets'' (Some [''instance_type'']) [''ec2_x'' \<mapsto> ?G]) = ''s3_buckets''"
    by (simp only: a fst_conv)
  have a2: "map_option labelnames
     (snd (gauge ''S3.Buckets'' (Some [''instance_type'']) [''ec2_x'' \<mapsto> ?G]) ''s3_buckets'') =
       Some [''region'', ''type'', ''instance_type'']"
    by (simp only: a snd_conv) simp
  from a1 a2 b c show ?thesis by blast
qed

section \<open>Facts about writes to a gauge\<close>

lemma base_labels_new: "base_labels (Gauge_new p [''region'', ''type''])"
  by (simp add: base_labels_def Gauge_new_def)


lemma well_labelled_base:
  "well_labelled gs \<Longrightarrow> p \<noteq> ec2_path \<Longrightarrow>
     gs p = None \<or> (\<exists>series. gs p = Some series \<and> base_labels series)"
  by (cases "gs p") (auto simp add: well_labelled_def)

lemma for_each_map:
  "for_each body (map h xs) gs = for_each (\<lambda>x. body (h x)) xs gs"
proof (induction xs arbitrary: gs)
  case Nil
  show ?case by simp
next
  case (Cons x xs)
  have "(\<lambda>gs'. for_each body (map h xs) gs') = (\<lambda>gs'. for_each (\<lambda>x. body (h x)) xs gs')"
    by (rule ext) (rule Cons.IH)
  then show ?case by simp
qed

lemma for_each_map_fun:
  "for_each body (map h xs) = for_each (\<lambda>x. body (h x)) xs"
  by (rule ext) (rule for_each_map)

lemma update_service_eq:
  assumes "gs (normalize_path path) = None \<or>
    (\<exists>series. gs (normalize_path path) = Some series \<and> base_labels series)"
  shows "update_service path usage limit region gs =
     (None,
      let p = normalize_path path;
          series = (case gs p of None \<Rightarrow> Gauge_new p [''region'', ''type''] | Some g \<Rightarrow> g);
          writes = ([(''region'', region), (''type'', ''limit'')], limit) #
            map (\<lambda>resource. ([(''region'', region), (''type'', metric_type_of resource)],
                   get_value resource)) usage
      in gs(p \<mapsto> series\<lparr>samples := samples series ++ map_of (rev writes)\<rparr>))"
proof -
  define p where "p = normalize_path path"
  define series where
    "series = (case gs p of None \<Rightarrow> Gauge_new p [''region'', ''type''] | Some g \<Rightarrow> g)"
  define writes where "writes = ([(''region'', region), (''type'', ''limit'')], limit) #
            map (\<lambda>resource. ([(''region'', region), (''type'', metric_type_of resource)],
                   get_value resource)) usage"
  have g: "gauge path None gs = (p, gs(p \<mapsto> series))"
    by (simp add: gauge_eq p_def series_def split: option.split)
  have "base_labels series"
    using assms by (auto simp add: series_def p_def base_labels_new)
  then have names: "sort (map fst (fst r)) = sort (labelnames series)" if "r \<in> set writes" for r
    using that by (auto simp add: writes_def base_labels_def)
  have "update_service path usage limit region gs =
      for_each (\<lambda>r. labels_set p (fst r) (snd r)) writes (gs(p \<mapsto> series))"
    by (simp add: update_service_def g writes_def for_each_map_fun)
  also have "\<dots> = (None, (gs(p \<mapsto> series))(p \<mapsto>
      series\<lparr>samples := samples series ++ map_of (rev (map (\<lambda>r. (fst r, snd r)) writes))\<rparr>))"
    using names by (intro for_each_labels_set) simp_all
  also have "\<dots> = (None, gs(p \<mapsto> series\<lparr>samples := samples series ++ map_of (rev writes)\<rparr>))"
    by simp
  finally show ?thesis
    unfolding Let_def p_def [symmetric] series_def [symmetric] writes_def [symmetric] .
qed


lemma update_service_error: "fst (update_service path usage limit region gs) = Some e \<Longrightarrow> e = ValueError"
proof -
  assume a: "fst (update_service path usage limit region gs) = Some e"
  obtain g gs1 where g: "gauge path None gs = (g, gs1)" by (cases "gauge path None gs")
  obtain r gs2 where l: "labels_set g [(''region'', region), (''type'', ''limit'')] limit gs1 = (r, gs2)"
    by (cases "labels_set g [(''region'', region), (''type'', ''limit'')] limit gs1")
  show ?thesis
  proof (cases r)
    case None
    with a g l have "fst (for_each (\<lambda>resource. labels_set g
           [(''region'', region), (''type'', metric_type_of resource)] (get_value resource))
           usage gs2) = Some e"
      by (simp add: update_service_def and_next_simps)
    then show ?thesis by (rule for_each_error [rotated]) (rule labels_set_error)
  next
    case (Some e')
    with a g l have "e = e'" by (simp add: update_service_def and_next_simps)
    moreover have "fst (labels_set g [(''region'', region), (''type'', ''limit'')] limit gs1) = Some e'"
      by (simp add: l Some)
    ultimately show ?thesis using labels_set_error by blast
  qed
qed


section \<open>Usage translator: the general group\<close>






section \<open>Facts about the EC2 on-demand group\<close>

lemma py_next_filter_first:
  "xs = pre @ x # post \<Longrightarrow> P x \<Longrightarrow> (\<forall>y \<in> set pre. \<not> P y) \<Longrightarrow> py_next (filter P xs) = Inr x"
  by (simp add: py_next_def)

lemma py_next_filter_none:
  "(\<forall>y \<in> set xs. \<not> P y) \<Longrightarrow> py_next (filter P xs) = Inl StopIteration"
proof -
  assume "\<forall>y \<in> set xs. \<not> P y"
  then have "filter P xs = []" by (simp add: filter_empty_conv)
  then show ?thesis by (simp add: py_next_def)
qed

lemma instance_type_of_eq:
  "instance_type_of limit_name =
     (if normalize_name ''ec2'' limit_name = ec2_path then Inr ''total''
      else py_next (filter (\<lambda>word. CHR ''.'' \<in> set word) (split_on CHR '' '' limit_name)))"
  by (simp add: instance_type_of_def normalize_name_def normalize_path_def Let_def)

lemma instance_type_of_error: "instance_type_of limit_name = Inl e \<Longrightarrow> e = StopIteration"
  by (auto simp add: instance_type_of_eq py_next_def split: if_splits list.splits)

lemma and_next_error:
  "fst (and_next r f) = Some e \<Longrightarrow> fst r = Some e \<or> (fst r = None \<and> fst (f (snd r)) = Some e)"
  by (cases r) (auto simp add: and_next_def split: option.splits)

lemma and_next_None:
  "fst (and_next r f) = None \<longleftrightarrow> fst r = None \<and> fst (f (snd r)) = None"
  by (cases r) (auto simp add: and_next_def split: option.splits)

text \<open>Only two exceptions come out of the translation.\<close>

lemma update_ec2_limits_error:
  "fst (update_ec2_limits g region limits gs) = Some e \<Longrightarrow> e = StopIteration \<or> e = ValueError"
proof (induction limits arbitrary: gs)
  case Nil
  then show ?case by simp
next
  case (Cons a limits)
  obtain limit_name limit where a: "a = (limit_name, limit)" by (cases a)
  show ?case
  proof (cases "instance_type_of limit_name")
    case (Inl e')
    with Cons.prems a have "e = e'" by simp
    with Inl show ?thesis by (simp add: instance_type_of_error)
  next
    case (Inr instance_type)
    from Cons.prems have "fst (and_next (labels_set g
              [(''region'', region), (''type'', ''limit''), (''instance_type'', instance_type)]
              (get_limit limit) gs) (\<lambda>gs1.
          and_next (for_each (\<lambda>resource. labels_set g
              [(''region'', region), (''type'', ''current''), (''instance_type'', instance_type)]
              (get_value resource)) (get_current_usage limit) gs1) (\<lambda>gs2.
          update_ec2_limits g region limits gs2))) = Some e"
      by (simp add: a Inr)
    then show ?thesis
      by (auto dest!: and_next_error dest: labels_set_error Cons.IH
          for_each_error [where P = "\<lambda>e. e = ValueError", rotated])
  qed
qed

lemma update_ec2_on_demand_error:
  assumes "fst (update_ec2_on_demand region limits gs) = Some e"
  shows "e = StopIteration \<or> e = ValueError"
proof (cases "limits = []")
  case True
  with assms show ?thesis by (simp add: update_ec2_on_demand_def)
next
  case False
  obtain g gs1 where g: "gauge ec2_path (Some [''instance_type'']) gs = (g, gs1)"
    by (cases "gauge ec2_path (Some [''instance_type'']) gs")
  from assms False have "fst (update_ec2_limits g region (sort_key fst limits) gs1) = Some e"
    by (simp add: update_ec2_on_demand_def g)
  then show ?thesis by (rule update_ec2_limits_error)
qed

lemma update_services_error:
  "fst (update_services region services gs) = Some e \<Longrightarrow> e = StopIteration \<or> e = ValueError"
proof (induction services arbitrary: gs)
  case Nil
  then show ?case by simp
next
  case (Cons a services)
  obtain service svc_limits where a: "a = (service, svc_limits)" by (cases a)
  have general: "e' = ValueError"
    if "fst (for_each (\<lambda>(limit_name, limit).
             update_service (pth limit_name)
               (get_current_usage limit) (get_limit limit) region) xs s) = Some e'" for xs s e' pth
    using that
    by (rule for_each_error [rotated]) (auto split: prod.splits dest: update_service_error)
  from Cons.prems show ?case
    unfolding a update_services.simps Let_def
    by (auto dest!: and_next_error dest: update_ec2_on_demand_error general Cons.IH)
qed

text \<open>A limit of the on-demand group without a dotted word makes the translation raise.\<close>

lemma update_ec2_limits_raises:
  "(limit_name, limit) \<in> set limits \<Longrightarrow> instance_type_of limit_name = Inl e \<Longrightarrow>
     fst (update_ec2_limits g region limits gs) \<noteq> None"
proof (induction limits arbitrary: gs)
  case Nil
  then show ?case by simp
next
  case (Cons a limits)
  obtain n l where a: "a = (n, l)" by (cases a)
  show ?case
  proof (cases "instance_type_of n")
    case (Inl e')
    then show ?thesis by (simp add: a)
  next
    case (Inr instance_type)
    with Cons.prems a have "(limit_name, limit) \<in> set limits" by auto
    from Cons.IH [OF this Cons.prems(2)] show ?thesis
      by (simp add: a Inr and_next_None)
  qed
qed

lemma update_ec2_on_demand_raises:
  assumes "(limit_name, limit) \<in> set limits" "instance_type_of limit_name = Inl e"
  shows "fst (update_ec2_on_demand region limits gs) \<noteq> None"
proof -
  from assms(1) have ne: "limits \<noteq> []" by auto
  from assms(1) have "(limit_name, limit) \<in> set (sort_key fst limits)" by simp
  from update_ec2_limits_raises [OF this assms(2)] ne show ?thesis
    by (simp add: update_ec2_on_demand_def split: prod.split)
qed

lemma update_services_raises:
  "(service, svc_limits) \<in> set services \<Longrightarrow>
   (limit_name, limit) \<in> set (ec2_instances_limits_of svc_limits) \<Longrightarrow>
   instance_type_of limit_name = Inl e \<Longrightarrow>
     fst (update_services region services gs) \<noteq> None"
proof (induction services arbitrary: gs)
  case Nil
  then show ?case by simp
next
  case (Cons a services)
  obtain s ls where a: "a = (s, ls)" by (cases a)
  show ?case
  proof (cases "(service, svc_limits) = (s, ls)")
    case True
    with Cons.prems(2) have "(limit_name, limit) \<in> set (ec2_instances_limits_of ls)" by simp
    from update_ec2_on_demand_raises [OF this Cons.prems(3)] show ?thesis
      by (simp add: a Let_def and_next_None)
  next
    case False
    with Cons.prems(1) a have "(service, svc_limits) \<in> set services" by auto
    from Cons.IH [OF this Cons.prems(2,3)] show ?thesis
      by (simp add: a Let_def and_next_None)
  qed
qed

section \<open>Facts about well labelled registries\<close>

lemma well_labelled_upd:
  "well_labelled gs \<Longrightarrow> (if p = ec2_path then ec2_labels series else base_labels series) \<Longrightarrow>
     well_labelled (gs(p \<mapsto> series))"
  by (simp add: well_labelled_def)

lemma labels_samples_upd:
  "base_labels (series\<lparr>samples := m\<rparr>) = base_labels series"
  "ec2_labels (series\<lparr>samples := m\<rparr>) = ec2_labels series"
  by (simp_all add: base_labels_def ec2_labels_def)

lemma labels_set_well_labelled:
  assumes "well_labelled gs"
  shows "well_labelled (snd (labels_set g kwargs v gs))"
proof (cases "gs g")
  case None
  with assms show ?thesis by (simp add: labels_set_def)
next
  case (Some series)
  show ?thesis
  proof (cases "sort (map fst kwargs) = sort (labelnames series)")
    case True
    have "if g = ec2_path then ec2_labels series else base_labels series"
      using assms Some by (simp add: well_labelled_def)
    then have "if g = ec2_path then ec2_labels (series\<lparr>samples := (samples series)(kwargs \<mapsto> v)\<rparr>)
        else base_labels (series\<lparr>samples := (samples series)(kwargs \<mapsto> v)\<rparr>)"
      by (simp only: labels_samples_upd)
    with assms have "well_labelled (gs(g \<mapsto> series\<lparr>samples := (samples series)(kwargs \<mapsto> v)\<rparr>))"
      by (rule well_labelled_upd)
    then show ?thesis
      by (simp only: labels_set_Some [of gs g series kwargs v, OF Some True] snd_conv)
  next
    case False
    from labels_set_refused [of gs g series kwargs v, OF Some False] assms show ?thesis by simp
  qed
qed

lemma and_next_invariant:
  "I (snd r) \<Longrightarrow> (\<And>gs. I gs \<Longrightarrow> I (snd (f gs))) \<Longrightarrow> I (snd (and_next r f))"
  by (cases r) (auto simp add: and_next_def split: option.split)

lemma for_each_invariant:
  "(\<And>x s. x \<in> set xs \<Longrightarrow> I s \<Longrightarrow> I (snd (body x s))) \<Longrightarrow> I gs \<Longrightarrow>
     I (snd (for_each body xs gs))"
proof (induction xs arbitrary: gs)
  case Nil
  then show ?case by simp
next
  case (Cons x xs)
  show ?case
    unfolding for_each.simps
  proof (rule and_next_invariant)
    show "I (snd (body x gs))" using Cons.prems by simp
    show "I (snd (for_each body xs s))" if "I s" for s
      using that Cons.prems(1) by (intro Cons.IH) simp_all
  qed
qed

lemma for_each_None:
  "(\<And>x s. x \<in> set xs \<Longrightarrow> I s \<Longrightarrow> fst (body x s) = None \<and> I (snd (body x s))) \<Longrightarrow> I gs \<Longrightarrow>
     fst (for_each body xs gs) = None"
proof (induction xs arbitrary: gs)
  case Nil
  then show ?case by simp
next
  case (Cons x xs)
  have 1: "fst (body x gs) = None" and 2: "I (snd (body x gs))"
    using Cons.prems by simp_all
  have "fst (for_each body xs (snd (body x gs))) = None"
    using Cons.prems(1) 2 by (intro Cons.IH) simp_all
  with 1 show ?case by (simp add: and_next_None)
qed

lemma gauge_ec2_well_labelled:
  assumes "well_labelled gs"
  shows "well_labelled (snd (gauge ec2_path (Some [''instance_type'']) gs))"
proof (cases "gs ec2_path")
  case None
  have "ec2_labels \<lparr>gauge_name = ec2_path,
      labelnames = [''region'', ''type''] @ [''instance_type''], samples = Map.empty\<rparr>"
    unfolding ec2_labels_def by simp
  with assms show ?thesis
    using gauge_None [of gs ec2_path "Some [''instance_type'']"] None
    by (simp add: normalize_path_ec2_path well_labelled_upd)
next
  case (Some g)
  with assms show ?thesis
    using gauge_Some [of gs ec2_path g "Some [''instance_type'']"]
    by (simp add: normalize_path_ec2_path)
qed

lemma ec2_write_accepted:
  assumes "well_labelled gs" "gs ec2_path \<noteq> None"
  shows "fst (labels_set ec2_path
      [(''region'', region), (''type'', t), (''instance_type'', instance_type)] v gs) = None"
proof -
  from assms obtain series where s: "gs ec2_path = Some series" "ec2_labels series"
    by (auto simp add: well_labelled_def)
  then have "sort (map fst [(''region'', region), (''type'', t), (''instance_type'', instance_type)]) =
      sort (labelnames series)"
    by (simp only: ec2_labels_def list.map fst_conv)
  from labels_set_Some [of gs ec2_path series
      "[(''region'', region), (''type'', t), (''instance_type'', instance_type)]" v, OF s(1) this]
  show ?thesis by (simp only: fst_conv)
qed

lemma update_ec2_limits_well_labelled:
  "well_labelled gs \<Longrightarrow> well_labelled (snd (update_ec2_limits g region limits gs))"
proof (induction limits arbitrary: gs)
  case Nil
  then show ?case by simp
next
  case (Cons a limits)
  obtain limit_name limit where a: "a = (limit_name, limit)" by (cases a)
  show ?case
  proof (cases "instance_type_of limit_name")
    case (Inl e)
    with Cons.prems show ?thesis by (simp add: a)
  next
    case (Inr instance_type)
    show ?thesis
      unfolding a update_ec2_limits.simps Inr sum.case
    proof (rule and_next_invariant [where I = well_labelled])
      show "well_labelled (snd (labels_set g
          [(''region'', region), (''type'', ''limit''), (''instance_type'', instance_type)]
          (get_limit limit) gs))"
        using Cons.prems by (rule labels_set_well_labelled)
    next
      fix gs1 assume w1: "well_labelled gs1"
      show "well_labelled (snd (and_next (for_each (\<lambda>resource. labels_set g
              [(''region'', region), (''type'', ''current''), (''instance_type'', instance_type)]
              (get_value resource)) (get_current_usage limit) gs1) (\<lambda>gs2.
          update_ec2_limits g region limits gs2)))"
      proof (rule and_next_invariant [where I = well_labelled])
        show "well_labelled (snd (for_each (\<lambda>resource. labels_set g
              [(''region'', region), (''type'', ''current''), (''instance_type'', instance_type)]
              (get_value resource)) (get_current_usage limit) gs1))"
          using w1 by (intro for_each_invariant [where I = well_labelled] labels_set_well_labelled)
      next
        fix gs2 assume "well_labelled gs2"
        then show "well_labelled (snd (update_ec2_limits g region limits gs2))" by (rule Cons.IH)
      qed
    qed
  qed
qed

lemma update_ec2_limits_no_ValueError:
  "well_labelled gs \<Longrightarrow> gs ec2_path \<noteq> None \<Longrightarrow>
     fst (update_ec2_limits ec2_path region limits gs) \<noteq> Some ValueError"
proof (induction limits arbitrary: gs)
  case Nil
  then show ?case by simp
next
  case (Cons a limits)
  obtain limit_name limit where a: "a = (limit_name, limit)" by (cases a)
  show ?case
  proof (cases "instance_type_of limit_name")
    case (Inl e)
    then show ?thesis using instance_type_of_error [OF Inl] by (simp add: a)
  next
    case (Inr instance_type)
    let ?I = "\<lambda>s. well_labelled s \<and> s ec2_path \<noteq> None"
    let ?w1 = "labels_set ec2_path
        [(''region'', region), (''type'', ''limit''), (''instance_type'', instance_type)]
        (get_limit limit) gs"
    let ?body = "\<lambda>resource. labels_set ec2_path
        [(''region'', region), (''type'', ''current''), (''instance_type'', instance_type)]
        (get_value resource)"
    let ?w2 = "for_each ?body (get_current_usage limit) (snd ?w1)"
    have keep: "?I (snd (labels_set ec2_path kwargs v s))" if "?I s" for s kwargs v
      using that labels_set_well_labelled [of s] grows_dom [OF labels_set_grows, of s ec2_path]
      by blast
    have 1: "fst ?w1 = None" using Cons.prems by (rule ec2_write_accepted)
    have I1: "?I (snd ?w1)" using Cons.prems by (intro keep) simp
    have 2: "fst ?w2 = None"
      by (rule for_each_None [where I = ?I]) (use keep ec2_write_accepted I1 in auto)
    have I2: "?I (snd ?w2)"
      by (rule for_each_invariant [where I = ?I]) (use keep I1 in auto)
    have "fst (update_ec2_limits ec2_path region limits (snd ?w2)) \<noteq> Some ValueError"
      using I2 by (intro Cons.IH) simp_all
    then show ?thesis
      by (simp add: a Inr and_next_cases 1 2)
  qed
qed

lemma update_ec2_on_demand_well_labelled:
  assumes "well_labelled gs"
  shows "well_labelled (snd (update_ec2_on_demand region limits gs))"
    and "fst (update_ec2_on_demand region limits gs) \<noteq> Some ValueError"
proof -
  obtain g gs1 where g: "gauge ec2_path (Some [''instance_type'']) gs = (g, gs1)"
    by (cases "gauge ec2_path (Some [''instance_type'']) gs")
  have ge: "g = ec2_path"
    using gauge_fst [of ec2_path "Some [''instance_type'']" gs] normalize_path_ec2_path
    by (simp add: g)
  have w1: "well_labelled gs1"
    using gauge_ec2_well_labelled [OF assms] by (simp add: g)
  have r1: "gs1 ec2_path \<noteq> None"
    using gauge_registered [of ec2_path "Some [''instance_type'']" gs] normalize_path_ec2_path
    by (simp add: g)
  show "well_labelled (snd (update_ec2_on_demand region limits gs))"
    using assms w1 by (simp add: update_ec2_on_demand_def g update_ec2_limits_well_labelled)
  show "fst (update_ec2_on_demand region limits gs) \<noteq> Some ValueError"
    using update_ec2_limits_no_ValueError [OF w1 r1]
    by (simp add: update_ec2_on_demand_def g ge)
qed

lemma update_service_well_labelled:
  assumes "well_labelled gs" "normalize_path path \<noteq> ec2_path"
  shows "fst (update_service path usage limit region gs) = None"
    and "well_labelled (snd (update_service path usage limit region gs))"
proof -
  from well_labelled_base [OF assms] have acc: "gs (normalize_path path) = None \<or>
    (\<exists>series. gs (normalize_path path) = Some series \<and> base_labels series)" .
  note eq = update_service_eq [of gs path usage limit region, OF acc]
  show "fst (update_service path usage limit region gs) = None" by (simp only: eq fst_conv)
  have "base_labels (case gs (normalize_path path) of
      None \<Rightarrow> Gauge_new (normalize_path path) [''region'', ''type''] | Some g \<Rightarrow> g)"
    using acc by (auto simp add: base_labels_new)
  then have "if normalize_path path = ec2_path then ec2_labels X else base_labels
      ((case gs (normalize_path path) of
      None \<Rightarrow> Gauge_new (normalize_path path) [''region'', ''type''] | Some g \<Rightarrow> g)\<lparr>samples := m\<rparr>)" for X m
    using assms(2) by (simp only: labels_samples_upd if_False)
  then show "well_labelled (snd (update_service path usage limit region gs))"
    unfolding eq snd_conv Let_def using assms(1)
    by (intro well_labelled_upd)
qed

lemma update_services_well_labelled:
  "well_labelled gs \<Longrightarrow> no_collision services \<Longrightarrow>
     fst (update_services region services gs) \<noteq> Some ValueError \<and>
     well_labelled (snd (update_services region services gs))"
proof (induction services arbitrary: gs)
  case Nil
  then show ?case by simp
next
  case (Cons a services)
  obtain service svc_limits where a: "a = (service, svc_limits)" by (cases a)
  let ?e = "update_ec2_on_demand region (ec2_instances_limits_of svc_limits) gs"
  let ?body = "\<lambda>(limit_name, limit). update_service (join ''.'' [service, limit_name])
      (get_current_usage limit) (get_limit limit) region"
  let ?g = "for_each ?body (sort_key fst (other_limits_of svc_limits)) (snd ?e)"
  have nc: "no_collision services"
    using Cons.prems(2) by (auto simp add: no_collision_def)
  have paths: "normalize_path (join ''.'' [service, limit_name]) \<noteq> ec2_path"
    if "(limit_name, limit) \<in> set (sort_key fst (other_limits_of svc_limits))" for limit_name limit
    using that Cons.prems(2) by (auto simp add: no_collision_def a normalize_name_def)
  have e1: "well_labelled (snd ?e)" and e2: "fst ?e \<noteq> Some ValueError"
    using update_ec2_on_demand_well_labelled [OF Cons.prems(1)] by simp_all
  have step: "fst (?body x s) = None \<and> well_labelled (snd (?body x s))"
    if "x \<in> set (sort_key fst (other_limits_of svc_limits))" "well_labelled s" for x s
  proof -
    obtain limit_name limit where x: "x = (limit_name, limit)" by (cases x)
    from update_service_well_labelled [OF that(2) paths [OF that(1) [unfolded x]]]
    show ?thesis by (simp add: x)
  qed
  have g1: "fst ?g = None"
    by (rule for_each_None [where I = well_labelled]) (use step e1 in auto)
  have g2: "well_labelled (snd ?g)"
    by (rule for_each_invariant [where I = well_labelled]) (use step e1 in auto)
  from Cons.IH [OF g2 nc]
  have r: "fst (update_services region services (snd ?g)) \<noteq> Some ValueError"
    "well_labelled (snd (update_services region services (snd ?g)))"
    by simp_all
  show ?case
  proof (cases "fst ?e")
    case None
    with g1 r show ?thesis by (simp add: a Let_def and_next_cases)
  next
    case (Some e)
    with e1 e2 show ?thesis by (simp add: a Let_def and_next_cases)
  qed
qed

lemma update_services_StopIteration:
  assumes "well_labelled gs" "no_collision services"
    and "(service, svc_limits) \<in> set services"
    and "(limit_name, limit) \<in> set (ec2_instances_limits_of svc_limits)"
    and "instance_type_of limit_name = Inl e"
  shows "fst (update_services region services gs) = Some StopIteration"
proof -
  from update_services_raises [OF assms(3-5), of region gs] obtain e' where
    e': "fst (update_services region services gs) = Some e'" by auto
  from update_services_error [OF e'] update_services_well_labelled [OF assms(1,2), of region] e'
  show ?thesis by auto
qed

lemma update_ec2_limits_accepted:
  assumes "instance_type_of limit_name = Inr instance_type" "gs g = Some series" "ec2_labels series"
  shows "update_ec2_limits g region ((limit_name, limit) # rest) gs =
    update_ec2_limits g region rest
      (gs(g \<mapsto> series\<lparr>samples := samples series ++ map_of (rev
         (([(''region'', region), (''type'', ''limit''), (''instance_type'', instance_type)],
           get_limit limit) #
          map (\<lambda>resource.
            ([(''region'', region), (''type'', ''current''), (''instance_type'', instance_type)],
             get_value resource)) (get_current_usage limit)))\<rparr>))"
proof -
  let ?k1 = "[(''region'', region), (''type'', ''limit''), (''instance_type'', instance_type)]"
  let ?k2 = "[(''region'', region), (''type'', ''current''), (''instance_type'', instance_type)]"
  let ?s1 = "series\<lparr>samples := (samples series)(?k1 \<mapsto> get_limit limit)\<rparr>"
  let ?ws = "map (\<lambda>resource. (?k2, get_value resource)) (get_current_usage limit)"
  have n1: "sort (map fst ?k1) = sort (labelnames series)"
    using assms(3) by (simp only: ec2_labels_def list.map fst_conv)
  have n2: "sort (map fst ?k2) = sort (labelnames ?s1)"
    using assms(3) by (simp only: ec2_labels_def list.map fst_conv) simp
  have w1: "labels_set g ?k1 (get_limit limit) gs = (None, gs(g \<mapsto> ?s1))"
    using assms(2) n1 by (rule labels_set_Some)
  have "for_each (\<lambda>resource. labels_set g ((\<lambda>_. ?k2) resource) (get_value resource))
      (get_current_usage limit) (gs(g \<mapsto> ?s1)) =
    (None, (gs(g \<mapsto> ?s1))(g \<mapsto> ?s1\<lparr>samples := samples ?s1 ++
       map_of (rev (map (\<lambda>resource. ((\<lambda>_. ?k2) resource, get_value resource))
         (get_current_usage limit)))\<rparr>))"
    using n2 by (intro for_each_labels_set) simp_all
  then have w2: "for_each (\<lambda>resource. labels_set g ?k2 (get_value resource))
      (get_current_usage limit) (gs(g \<mapsto> ?s1)) =
    (None, gs(g \<mapsto> series\<lparr>samples := samples series ++ map_of (rev ((?k1, get_limit limit) # ?ws))\<rparr>))"
    by (simp add: map_add_upd_left)
  show ?thesis
    by (simp only: update_ec2_limits.simps assms(1) sum.case w1 and_next_simps w2)
qed

section \<open>Usage translator: the EC2 on-demand group\<close>

text \<open>
  C2. For a limit of the on-demand group, the instance type is \<^verbatim>\<open>total\<close> when the
  normalized path of \<^verbatim>\<open>ec2\<close> and the limit name is the fixed path
  \<^verbatim>\<open>ec2_running_on_demand_ec2_instances\<close>. Otherwise it is the first of the words of the
  limit name, as split at single spaces and not normalized, that holds a dot. When no
  word holds a dot, \<^verbatim>\<open>StopIteration\<close> is raised. The instance type found labels the
  ceiling value and every usage value of the limit, which are written to the gauge when
  it takes the three labels. The exception is not ignored: it leaves the loop over the
  limits, with nothing written for the limit, and the loop over the services, so that
  what remained of the region is skipped, and the handler of \<^verbatim>\<open>update\<close> logs it. A
  region whose report holds such a limit always ends with an exception logged; it is
  this \<^verbatim>\<open>StopIteration\<close> whenever no write is refused before the limit is reached, as
  in a well labelled registry with a report free of collisions, and the \<^verbatim>\<open>ValueError\<close>
  of the refused write otherwise.
\<close>

theorem ec2_instance_type:
  "(normalize_name ''ec2'' limit_name = ec2_path \<longrightarrow> instance_type_of limit_name = Inr ''total'') \<and>
   (normalize_name ''ec2'' limit_name \<noteq> ec2_path \<and>
    split_on CHR '' '' limit_name = pre @ word # post \<and> CHR ''.'' \<in> set word \<and>
    (\<forall>w \<in> set pre. CHR ''.'' \<notin> set w) \<longrightarrow>
      instance_type_of limit_name = Inr word) \<and>
   (normalize_name ''ec2'' limit_name \<noteq> ec2_path \<and>
    (\<forall>w \<in> set (split_on CHR '' '' limit_name). CHR ''.'' \<notin> set w) \<longrightarrow>
      instance_type_of limit_name = Inl StopIteration) \<and>
   (instance_type_of limit_name = Inr instance_type \<longrightarrow>
      update_ec2_limits g region ((limit_name, limit) # rest) gs =
        and_next (labels_set g
            [(''region'', region), (''type'', ''limit''), (''instance_type'', instance_type)]
            (get_limit limit) gs) (\<lambda>gs1.
        and_next (for_each (\<lambda>resource. labels_set g
            [(''region'', region), (''type'', ''current''), (''instance_type'', instance_type)]
            (get_value resource)) (get_current_usage limit) gs1) (\<lambda>gs2.
        update_ec2_limits g region rest gs2))) \<and>
   (instance_type_of limit_name = Inr instance_type \<and> gs g = Some series \<and> ec2_labels series \<longrightarrow>
      update_ec2_limits g region ((limit_name, limit) # rest) gs =
        update_ec2_limits g region rest
          (gs(g \<mapsto> series\<lparr>samples := samples series ++ map_of (rev
             (([(''region'', region), (''type'', ''limit''), (''instance_type'', instance_type)],
               get_limit limit) #
              map (\<lambda>resource.
                ([(''region'', region), (''type'', ''current''), (''instance_type'', instance_type)],
                 get_value resource)) (get_current_usage limit)))\<rparr>))) \<and>
   (instance_type_of limit_name = Inl StopIteration \<longrightarrow>
      update_ec2_limits g region ((limit_name, limit) # rest) gs = (Some StopIteration, gs)) \<and>
   (instance_type_of limit_name = Inl StopIteration \<and> find_usage checker = None \<and>
    (service, svc_limits) \<in> set (get_limits checker) \<and> (limit_name, limit) \<in> set svc_limits \<and>
    str_contains ''on-demand'' (lower limit_name) \<longrightarrow>
      (\<exists>e gs'. (e = StopIteration \<or> e = ValueError) \<and>
         update_try checker region (gauges st) = (Some e, gs') \<and>
         update checker region st =
           Inr (st\<lparr>gauges := gs', logged := logged st @ [e],
                  observations := Suc (observations st)\<rparr>))) \<and>
   (instance_type_of limit_name = Inl StopIteration \<and> find_usage checker = None \<and>
    (service, svc_limits) \<in> set (get_limits checker) \<and> (limit_name, limit) \<in> set svc_limits \<and>
    str_contains ''on-demand'' (lower limit_name) \<and>
    well_labelled (gauges st) \<and> no_collision (get_limits checker) \<longrightarrow>
      (\<exists>gs'. update_try checker region (gauges st) = (Some StopIteration, gs') \<and>
         update checker region st =
           Inr (st\<lparr>gauges := gs', logged := logged st @ [StopIteration],
                  observations := Suc (observations st)\<rparr>))) \<and>
   (fst (update_ec2_on_demand region (ec2_instances_limits_of svc_limits) gs) = Some e \<longrightarrow>
      update_services region ((service, svc_limits) # rest_services) gs =
        update_ec2_on_demand region (ec2_instances_limits_of svc_limits) gs)"
proof (intro conjI impI)
  assume "normalize_name ''ec2'' limit_name = ec2_path"
  then show "instance_type_of limit_name = Inr ''total''"
    by (simp add: instance_type_of_eq)
next
  assume a: "normalize_name ''ec2'' limit_name \<noteq> ec2_path \<and>
    split_on CHR '' '' limit_name = pre @ word # post \<and> CHR ''.'' \<in> set word \<and>
    (\<forall>w \<in> set pre. CHR ''.'' \<notin> set w)"
  then have "py_next (filter (\<lambda>word. CHR ''.'' \<in> set word) (split_on CHR '' '' limit_name)) = Inr word"
    by (intro py_next_filter_first [of _ pre word post]) simp_all
  with a show "instance_type_of limit_name = Inr word"
    by (simp add: instance_type_of_eq)
next
  assume a: "normalize_name ''ec2'' limit_name \<noteq> ec2_path \<and>
    (\<forall>w \<in> set (split_on CHR '' '' limit_name). CHR ''.'' \<notin> set w)"
  then have "py_next (filter (\<lambda>word. CHR ''.'' \<in> set word) (split_on CHR '' '' limit_name)) =
      Inl StopIteration"
    by (intro py_next_filter_none) simp
  with a show "instance_type_of limit_name = Inl StopIteration"
    by (simp add: instance_type_of_eq)
next
  assume "instance_type_of limit_name = Inr instance_type"
  then show "update_ec2_limits g region ((limit_name, limit) # rest) gs =
        and_next (labels_set g
            [(''region'', region), (''type'', ''limit''), (''instance_type'', instance_type)]
            (get_limit limit) gs) (\<lambda>gs1.
        and_next (for_each (\<lambda>resource. labels_set g
            [(''region'', region), (''type'', ''current''), (''instance_type'', instance_type)]
            (get_value resource)) (get_current_usage limit) gs1) (\<lambda>gs2.
        update_ec2_limits g region rest gs2))"
    by (simp only: update_ec2_limits.simps sum.case)
next
  assume "instance_type_of limit_name = Inr instance_type \<and> gs g = Some series \<and> ec2_labels series"
  then show "update_ec2_limits g region ((limit_name, limit) # rest) gs =
        update_ec2_limits g region rest
          (gs(g \<mapsto> series\<lparr>samples := samples series ++ map_of (rev
             (([(''region'', region), (''type'', ''limit''), (''instance_type'', instance_type)],
               get_limit limit) #
              map (\<lambda>resource.
                ([(''region'', region), (''type'', ''current''), (''instance_type'', instance_type)],
                 get_value resource)) (get_current_usage limit)))\<rparr>))"
    by (intro update_ec2_limits_accepted) simp_all
next
  assume "instance_type_of limit_name = Inl StopIteration"
  then show "update_ec2_limits g region ((limit_name, limit) # rest) gs = (Some StopIteration, gs)"
    by simp
next
  assume a: "instance_type_of limit_name = Inl StopIteration \<and> find_usage checker = None \<and>
    (service, svc_limits) \<in> set (get_limits checker) \<and> (limit_name, limit) \<in> set svc_limits \<and>
    str_contains ''on-demand'' (lower limit_name)"
  then have 1: "(service, svc_limits) \<in> set (sort_key fst (get_limits checker))" by simp
  from a have 2: "(limit_name, limit) \<in> set (ec2_instances_limits_of svc_limits)"
    by (simp add: ec2_instances_limits_of_def)
  from a have 3: "instance_type_of limit_name = Inl StopIteration" by simp
  obtain r gs' where u: "update_try checker region (gauges st) = (r, gs')"
    by (cases "update_try checker region (gauges st)")
  from update_services_raises [OF 1 2 3, of region "gauges st"] a u
  obtain e where r: "r = Some e" by (auto simp add: update_try_def)
  with a u have "fst (update_services region (sort_key fst (get_limits checker)) (gauges st)) = Some e"
    by (simp add: update_try_def)
  then have "e = StopIteration \<or> e = ValueError" by (rule update_services_error)
  with u r show "\<exists>e gs'. (e = StopIteration \<or> e = ValueError) \<and>
         update_try checker region (gauges st) = (Some e, gs') \<and>
         update checker region st =
           Inr (st\<lparr>gauges := gs', logged := logged st @ [e],
                  observations := Suc (observations st)\<rparr>)"
    by (auto simp add: update_def)
next
  assume a: "instance_type_of limit_name = Inl StopIteration \<and> find_usage checker = None \<and>
    (service, svc_limits) \<in> set (get_limits checker) \<and> (limit_name, limit) \<in> set svc_limits \<and>
    str_contains ''on-demand'' (lower limit_name) \<and>
    well_labelled (gauges st) \<and> no_collision (get_limits checker)"
  then have 1: "(service, svc_limits) \<in> set (sort_key fst (get_limits checker))" by simp
  from a have 2: "(limit_name, limit) \<in> set (ec2_instances_limits_of svc_limits)"
    by (simp add: ec2_instances_limits_of_def)
  from a have 3: "instance_type_of limit_name = Inl StopIteration" by simp
  from a have 4: "well_labelled (gauges st)" by simp
  from a have 5: "no_collision (sort_key fst (get_limits checker))"
    by (simp add: no_collision_def)
  obtain r gs' where u: "update_try checker region (gauges st) = (r, gs')"
    by (cases "update_try checker region (gauges st)")
  from update_services_StopIteration [OF 4 5 1 2 3, of region] a u
  have "r = Some StopIteration" by (simp add: update_try_def)
  with u show "\<exists>gs'. update_try checker region (gauges st) = (Some StopIteration, gs') \<and>
         update checker region st =
           Inr (st\<lparr>gauges := gs', logged := logged st @ [StopIteration],
                  observations := Suc (observations st)\<rparr>)"
    by (simp add: update_def)
next
  assume "fst (update_ec2_on_demand region (ec2_instances_limits_of svc_limits) gs) = Some e"
  then show "update_services region ((service, svc_limits) # rest_services) gs =
        update_ec2_on_demand region (ec2_instances_limits_of svc_limits) gs"
    by (cases "update_ec2_on_demand region (ec2_instances_limits_of svc_limits) gs")
      (simp add: Let_def and_next_simps)
qed

lemma instance_type_examples:
  "normalize_name ''ec2'' ''Running On-Demand EC2 instances'' = ec2_path"
  "normalize_name ''ec2'' ''Running On-Demand m5.large Instances'' \<noteq> ec2_path"
  "normalize_name ''ec2'' ''Running On-Demand Foo instances'' \<noteq> ec2_path"
  "split_on CHR '' '' ''Running On-Demand m5.large Instances'' =
     [''Running'', ''On-Demand''] @ ''m5.large'' # [''Instances'']"
  "split_on CHR '' '' ''Running On-Demand Foo instances'' =
     [''Running'', ''On-Demand'', ''Foo'', ''instances'']"
  "str_contains ''on-demand'' (lower ''Running On-Demand Foo instances'')"
  "other_limits_of [(''Running On-Demand Foo instances'', \<lparr>get_limit = 5, get_current_usage = []\<rparr>)] = []"
  by code_simp+

theorem ec2_instance_type_witness:
  "instance_type_of ''Running On-Demand EC2 instances'' = Inr ''total'' \<and>
   instance_type_of ''Running On-Demand m5.large Instances'' = Inr ''m5.large'' \<and>
   instance_type_of ''Running On-Demand Foo instances'' = Inl StopIteration \<and>
   (\<exists>gs'. update
      \<lparr>find_usage = None,
       get_limits = [(''EC2'', [(''Running On-Demand Foo instances'',
                                 \<lparr>get_limit = 5, get_current_usage = []\<rparr>)])]\<rparr>
      ''us-east-1'' \<lparr>gauges = Map.empty, logged = [], observations = 0\<rparr> =
        Inr \<lparr>gauges = gs', logged = [StopIteration], observations = Suc 0\<rparr>)"
proof -
  let ?l = "\<lparr>get_limit = 5, get_current_usage = []\<rparr>"
  let ?ck = "\<lparr>find_usage = None,
       get_limits = [(''EC2'', [(''Running On-Demand Foo instances'', ?l)])]\<rparr>"
  let ?st = "\<lparr>gauges = Map.empty, logged = [], observations = 0\<rparr>"
  note ex = instance_type_examples
  have a: "instance_type_of ''Running On-Demand EC2 instances'' = Inr ''total''"
    using ec2_instance_type [of "''Running On-Demand EC2 instances''"] ex(1) by blast
  have h2: "normalize_name ''ec2'' ''Running On-Demand m5.large Instances'' \<noteq> ec2_path \<and>
    split_on CHR '' '' ''Running On-Demand m5.large Instances'' =
      [''Running'', ''On-Demand''] @ ''m5.large'' # [''Instances''] \<and>
    CHR ''.'' \<in> set ''m5.large'' \<and>
    (\<forall>w \<in> set [''Running'', ''On-Demand'']. CHR ''.'' \<notin> set w)"
    using ex(2,4) by simp
  have b: "instance_type_of ''Running On-Demand m5.large Instances'' = Inr ''m5.large''"
    using ec2_instance_type [of "''Running On-Demand m5.large Instances''"
        "[''Running'', ''On-Demand'']" "''m5.large''" "[''Instances'']"] h2
    by blast
  have h3: "normalize_name ''ec2'' ''Running On-Demand Foo instances'' \<noteq> ec2_path \<and>
    (\<forall>w \<in> set (split_on CHR '' '' ''Running On-Demand Foo instances''). CHR ''.'' \<notin> set w)"
    using ex(3) by (simp add: ex(5))
  note t = ec2_instance_type [where limit_name = "''Running On-Demand Foo instances''"
      and limit = ?l and checker = ?ck and service = "''EC2''"
      and svc_limits = "[(''Running On-Demand Foo instances'', ?l)]" and st = ?st
      and region = "''us-east-1''"]
  have c: "instance_type_of ''Running On-Demand Foo instances'' = Inl StopIteration"
    using t h3 by blast
  have wl: "well_labelled (gauges ?st)" by (simp add: well_labelled_def)
  have nc: "no_collision (get_limits ?ck)" by (simp add: no_collision_def ex(7))
  have h5: "find_usage ?ck = None \<and>
    (''EC2'', [(''Running On-Demand Foo instances'', ?l)]) \<in> set (get_limits ?ck) \<and>
    (''Running On-Demand Foo instances'', ?l) \<in> set [(''Running On-Demand Foo instances'', ?l)] \<and>
    str_contains ''on-demand'' (lower ''Running On-Demand Foo instances'')"
    using ex(6) by simp
  from t c h5 wl nc have "\<exists>gs'. update_try ?ck ''us-east-1'' (gauges ?st) = (Some StopIteration, gs') \<and>
         update ?ck ''us-east-1'' ?st =
           Inr (?st\<lparr>gauges := gs', logged := logged ?st @ [StopIteration],
                  observations := Suc (observations ?st)\<rparr>)"
    by blast
  then have d: "\<exists>gs'. update ?ck ''us-east-1'' ?st =
      Inr \<lparr>gauges = gs', logged = [StopIteration], observations = Suc 0\<rparr>"
    by auto
  from a b c d show ?thesis by blast
qed

section \<open>Facts about the split of a service's limits\<close>

lemma str_contains_sublist: "str_contains sub s \<longleftrightarrow> sublist sub s"
  by (induction s) (simp_all add: sublist_Cons_right)

lemma str_contains_iff: "str_contains sub s \<longleftrightarrow> (\<exists>pre post. s = pre @ sub @ post)"
  by (simp add: str_contains_sublist sublist_def)

lemma ec2_instances_limits_keys:
  "key \<in> set (map fst (ec2_instances_limits_of svc_limits)) \<Longrightarrow> str_contains ''on-demand'' (lower key)"
  by (auto simp add: ec2_instances_limits_of_def)

lemma on_demand_in_ec2_group:
  assumes "(key, limit) \<in> set svc_limits" "str_contains ''on-demand'' (lower key)"
  shows "(key, limit) \<in> set (ec2_instances_limits_of svc_limits)"
    and "(key, limit) \<notin> set (other_limits_of svc_limits)"
proof -
  show 1: "(key, limit) \<in> set (ec2_instances_limits_of svc_limits)"
    using assms by (simp add: ec2_instances_limits_of_def)
  then have "key \<in> set (map fst (ec2_instances_limits_of svc_limits))" by force
  then show "(key, limit) \<notin> set (other_limits_of svc_limits)"
    by (simp add: other_limits_of_def)
qed

lemma other_in_general_group:
  assumes "(key, limit) \<in> set svc_limits" "\<not> str_contains ''on-demand'' (lower key)"
  shows "(key, limit) \<in> set (other_limits_of svc_limits)"
    and "(key, limit) \<notin> set (ec2_instances_limits_of svc_limits)"
proof -
  from assms(2) have "key \<notin> set (map fst (ec2_instances_limits_of svc_limits))"
    using ec2_instances_limits_keys by blast
  with assms(1) show "(key, limit) \<in> set (other_limits_of svc_limits)"
    by (simp add: other_limits_of_def)
  from assms(2) show "(key, limit) \<notin> set (ec2_instances_limits_of svc_limits)"
    by (simp add: ec2_instances_limits_of_def)
qed

lemma update_ec2_on_demand_nonempty:
  assumes "limits \<noteq> []"
  shows "update_ec2_on_demand region limits gs =
      update_ec2_limits ec2_path region (sort_key fst limits)
        (snd (gauge ec2_path (Some [''instance_type'']) gs))"
    and "snd (update_ec2_on_demand region limits gs) ec2_path \<noteq> None"
proof -
  obtain g gs1 where g: "gauge ec2_path (Some [''instance_type'']) gs = (g, gs1)"
    by (cases "gauge ec2_path (Some [''instance_type'']) gs")
  have "g = ec2_path"
    using gauge_fst [of ec2_path "Some [''instance_type'']" gs] normalize_path_ec2_path
    by (simp add: g)
  then show eq: "update_ec2_on_demand region limits gs =
      update_ec2_limits ec2_path region (sort_key fst limits)
        (snd (gauge ec2_path (Some [''instance_type'']) gs))"
    using assms by (simp add: update_ec2_on_demand_def g)
  have "snd (gauge ec2_path (Some [''instance_type'']) gs) ec2_path \<noteq> None"
    using gauge_registered [of ec2_path "Some [''instance_type'']" gs] normalize_path_ec2_path by simp
  then show "snd (update_ec2_on_demand region limits gs) ec2_path \<noteq> None"
    unfolding eq by (rule grows_dom [OF update_ec2_limits_grows])
qed

lemma update_services_registers_ec2_path:
  assumes "ec2_instances_limits_of svc_limits \<noteq> []"
  shows "snd (update_services region ((service, svc_limits) # rest) gs) ec2_path \<noteq> None"
proof -
  let ?e = "update_ec2_on_demand region (ec2_instances_limits_of svc_limits) gs"
  have reg: "snd ?e ec2_path \<noteq> None"
    using assms by (rule update_ec2_on_demand_nonempty(2))
  have "grows (snd ?e) (snd (update_services region ((service, svc_limits) # rest) gs))"
    unfolding update_services.simps Let_def
    by (intro and_next_grows grows_refl for_each_grows update_services_grows)
      (auto simp add: update_service_grows split: prod.split)
  from grows_dom [OF this reg] show ?thesis .
qed

section \<open>Usage translator: splitting a service's limits\<close>

text \<open>
  C6, as stated, fails: \<^verbatim>\<open>update\<close> hands the on-demand group of every service to
  \<^verbatim>\<open>update_ec2_on_demand\<close>, which looks at the group and never at the service. A limit
  of the service \<^verbatim>\<open>RDS\<close> named \<^verbatim>\<open>On-Demand db.x\<close> is emitted under the EC2 on-demand
  gauge.
\<close>

theorem on_demand_group_of_other_service_is_processed:
  "fst (update_try
      \<lparr>find_usage = None,
       get_limits = [(''RDS'', [(''On-Demand db.x'', \<lparr>get_limit = 5, get_current_usage = []\<rparr>)])]\<rparr>
      ''r'' Map.empty) = None \<and>
   map_option (\<lambda>series. (labelnames series,
       samples series [(''region'', ''r''), (''type'', ''limit''), (''instance_type'', ''db.x'')]))
     (snd (update_try
        \<lparr>find_usage = None,
         get_limits = [(''RDS'', [(''On-Demand db.x'', \<lparr>get_limit = 5, get_current_usage = []\<rparr>)])]\<rparr>
        ''r'' Map.empty) ''ec2_running_on_demand_ec2_instances'') =
     Some ([''region'', ''type'', ''instance_type''], Some 5)"
  by code_simp

text \<open>
  C6, amended. Of the limits of a service, those whose lowercased name holds
  \<^verbatim>\<open>on-demand\<close> form the on-demand group and all the others the general group. The
  on-demand group is processed exactly when it is not empty, whatever the service is: an
  empty group changes nothing, and a group that is not empty is emitted under the gauge
  \<^verbatim>\<open>ec2_running_on_demand_ec2_instances\<close>, which is registered from then on.
\<close>

theorem on_demand_partition:
  "((key, limit) \<in> set svc_limits \<and> str_contains ''on-demand'' (lower key) \<longrightarrow>
      (key, limit) \<in> set (ec2_instances_limits_of svc_limits) \<and>
      (key, limit) \<notin> set (other_limits_of svc_limits)) \<and>
   ((key, limit) \<in> set svc_limits \<and> \<not> str_contains ''on-demand'' (lower key) \<longrightarrow>
      (key, limit) \<in> set (other_limits_of svc_limits) \<and>
      (key, limit) \<notin> set (ec2_instances_limits_of svc_limits)) \<and>
   (str_contains ''on-demand'' (lower key) \<longleftrightarrow> (\<exists>pre post. lower key = pre @ ''on-demand'' @ post)) \<and>
   update_ec2_on_demand region [] gs = (None, gs) \<and>
   (ec2_instances_limits_of svc_limits \<noteq> [] \<longrightarrow>
      update_ec2_on_demand region (ec2_instances_limits_of svc_limits) gs =
        update_ec2_limits ec2_path region (sort_key fst (ec2_instances_limits_of svc_limits))
          (snd (gauge ec2_path (Some [''instance_type'']) gs)) \<and>
      snd (update_services region ((service, svc_limits) # rest) gs) ec2_path \<noteq> None)"
proof (intro conjI impI)
  assume a: "(key, limit) \<in> set svc_limits \<and> str_contains ''on-demand'' (lower key)"
  then show "(key, limit) \<in> set (ec2_instances_limits_of svc_limits)"
    by (intro on_demand_in_ec2_group(1)) simp_all
  from a show "(key, limit) \<notin> set (other_limits_of svc_limits)"
    by (intro on_demand_in_ec2_group(2) [of key limit]) simp_all
next
  assume a: "(key, limit) \<in> set svc_limits \<and> \<not> str_contains ''on-demand'' (lower key)"
  then show "(key, limit) \<in> set (other_limits_of svc_limits)"
    by (intro other_in_general_group(1)) simp_all
  from a show "(key, limit) \<notin> set (ec2_instances_limits_of svc_limits)"
    by (intro other_in_general_group(2) [of key limit svc_limits]) simp_all
next
  show "str_contains ''on-demand'' (lower key) \<longleftrightarrow> (\<exists>pre post. lower key = pre @ ''on-demand'' @ post)"
    by (rule str_contains_iff)
  show "update_ec2_on_demand region [] gs = (None, gs)"
    by (simp add: update_ec2_on_demand_def)
next
  assume ne: "ec2_instances_limits_of svc_limits \<noteq> []"
  then show "update_ec2_on_demand region (ec2_instances_limits_of svc_limits) gs =
        update_ec2_limits ec2_path region (sort_key fst (ec2_instances_limits_of svc_limits))
          (snd (gauge ec2_path (Some [''instance_type'']) gs))"
    by (rule update_ec2_on_demand_nonempty(1))
  from ne show "snd (update_services region ((service, svc_limits) # rest) gs) ec2_path \<noteq> None"
    by (rule update_services_registers_ec2_path)
qed

lemma partition_examples:
  "str_contains ''on-demand'' (lower ''On-Demand db.x'')"
  "\<not> str_contains ''on-demand'' (lower ''DB instances'')"
  "ec2_instances_limits_of
     [(''On-Demand db.x'', \<lparr>get_limit = 5, get_current_usage = []\<rparr>),
      (''DB instances'', \<lparr>get_limit = 40, get_current_usage = []\<rparr>)] \<noteq> []"
  by code_simp+

theorem on_demand_partition_witness:
  "(''On-Demand db.x'', \<lparr>get_limit = 5, get_current_usage = []\<rparr>) \<in>
     set (ec2_instances_limits_of
       [(''On-Demand db.x'', \<lparr>get_limit = 5, get_current_usage = []\<rparr>),
        (''DB instances'', \<lparr>get_limit = 40, get_current_usage = []\<rparr>)]) \<and>
   (''DB instances'', \<lparr>get_limit = 40, get_current_usage = []\<rparr>) \<in>
     set (other_limits_of
       [(''On-Demand db.x'', \<lparr>get_limit = 5, get_current_usage = []\<rparr>),
        (''DB instances'', \<lparr>get_limit = 40, get_current_usage = []\<rparr>)]) \<and>
   snd (update_services ''r''
     ((''RDS'', [(''On-Demand db.x'', \<lparr>get_limit = 5, get_current_usage = []\<rparr>),
        (''DB instances'', \<lparr>get_limit = 40, get_current_usage = []\<rparr>)]) # []) Map.empty)
     ec2_path \<noteq> None"
proof -
  let ?a = "(''On-Demand db.x'', \<lparr>get_limit = 5, get_current_usage = []\<rparr>)"
  let ?b = "(''DB instances'', \<lparr>get_limit = 40, get_current_usage = []\<rparr>)"
  note ex = partition_examples
  have h1: "?a \<in> set [?a, ?b] \<and> str_contains ''on-demand'' (lower ''On-Demand db.x'')"
    using ex(1) by simp
  have h2: "?b \<in> set [?a, ?b] \<and> \<not> str_contains ''on-demand'' (lower ''DB instances'')"
    using ex(2) by simp
  note t1 = on_demand_partition [of "''On-Demand db.x''" "\<lparr>get_limit = 5, get_current_usage = []\<rparr>"
      "[?a, ?b]" "''r''" Map.empty "''RDS''" "[]"]
  note t2 = on_demand_partition [of "''DB instances''" "\<lparr>get_limit = 40, get_current_usage = []\<rparr>"
      "[?a, ?b]" "''r''" Map.empty "''RDS''" "[]"]
  from t1 h1 have a: "?a \<in> set (ec2_instances_limits_of [?a, ?b])" by blast
  from t2 h2 have b: "?b \<in> set (other_limits_of [?a, ?b])" by blast
  from t1 ex(3) have c: "snd (update_services ''r'' ((''RDS'', [?a, ?b]) # []) Map.empty) ec2_path \<noteq> None"
    by blast
  from a b c show ?thesis by blast
qed

section \<open>Facts about the polling loop\<close>

lemma update_eq:
  "update checker region st =
     Inr (st\<lparr>gauges := snd (update_try checker region (gauges st)),
            logged := logged st @
              (case fst (update_try checker region (gauges st)) of None \<Rightarrow> [] | Some e \<Rightarrow> [e]),
            observations := Suc (observations st)\<rparr>)"
  by (cases "update_try checker region (gauges st)")
    (simp add: update_def split: option.split)

lemma update_find_usage_raises:
  "find_usage checker = Some e \<Longrightarrow>
     update checker region st =
       Inr (st\<lparr>logged := logged st @ [e], observations := Suc (observations st)\<rparr>)"
  by (simp add: update_def update_try_def)

lemma update_observations:
  "update checker region st = Inr st' \<Longrightarrow> observations st' = Suc (observations st)"
  by (auto simp add: update_eq)

lemma cycle_append:
  "cycle k (pre @ post) st = (case cycle k pre st of Inl e \<Rightarrow> Inl e | Inr st1 \<Rightarrow> cycle k post st1)"
proof (induction pre arbitrary: st)
  case Nil
  show ?case by simp
next
  case (Cons a pre)
  obtain region checker where a: "a = (region, checker)" by (cases a)
  show ?case by (simp add: a update_eq Cons.IH)
qed

lemma cycle_returns:
  "\<exists>st'. cycle k checkers st = Inr st' \<and> observations st' = observations st + length checkers"
proof (induction checkers arbitrary: st)
  case Nil
  show ?case by simp
next
  case (Cons a checkers)
  obtain region checker where a: "a = (region, checker)" by (cases a)
  obtain st1 where st1: "update (checker k) region st = Inr st1"
    by (simp add: update_eq)
  from Cons.IH [of st1] obtain st' where
    "cycle k checkers st1 = Inr st'" "observations st' = observations st1 + length checkers"
    by blast
  with st1 update_observations [OF st1] show ?case by (simp add: a)
qed

lemma main_loop_returns:
  "\<exists>st'. main_loop n k checkers st = Inr st' \<and>
     observations st' = observations st + n * length checkers"
proof (induction n arbitrary: k st)
  case 0
  show ?case by simp
next
  case (Suc n)
  from cycle_returns [of k checkers st] obtain st1 where
    st1: "cycle k checkers st = Inr st1" "observations st1 = observations st + length checkers"
    by blast
  from Suc.IH [of "Suc k" st1] obtain st' where
    "main_loop n (Suc k) checkers st1 = Inr st'"
    "observations st' = observations st1 + n * length checkers"
    by blast
  with st1 show ?case by simp
qed

lemma main_loop_Suc:
  "main_loop (Suc n) k checkers st =
     (case main_loop n k checkers st of Inl e \<Rightarrow> Inl e | Inr st1 \<Rightarrow> cycle (k + n) checkers st1)"
proof (induction n arbitrary: k st)
  case 0
  show ?case by (simp split: sum.split)
next
  case (Suc n)
  obtain st1 where st1: "cycle k checkers st = Inr st1"
    using cycle_returns [of k checkers st] by blast
  have "main_loop (Suc (Suc n)) k checkers st = main_loop (Suc n) (Suc k) checkers st1"
    by (simp add: st1)
  also have "\<dots> = (case main_loop n (Suc k) checkers st1 of
      Inl e \<Rightarrow> Inl e | Inr st2 \<Rightarrow> cycle (Suc k + n) checkers st2)"
    by (rule Suc.IH)
  also have "\<dots> = (case main_loop (Suc n) k checkers st of
      Inl e \<Rightarrow> Inl e | Inr st2 \<Rightarrow> cycle (k + Suc n) checkers st2)"
    by (simp add: st1 split: sum.split)
  finally show ?case .
qed


section \<open>Region scheduler: failures stay in their region\<close>

text \<open>
  C3. \<^verbatim>\<open>update\<close> never raises to the polling loop. Whatever the refresh and the
  translation of a region do, it returns, with the gauges as the body left them, one
  duration observed, and the exception of the body, if there was one, logged; when the
  refresh raises, nothing but the log and the summary changes. (Exceptions here are
  those of class \<^verbatim>\<open>Exception\<close>, which is what the handler catches.) So within a
  cycle the update of every region runs, from the state the regions before it left,
  whether they failed or not, and a cycle over any list of checkers observes one
  duration per region. And every cycle runs: after any number of cycles the loop is
  still going, the next cycle starts from the state they left, and as many durations
  have been observed as regions were due.
\<close>

theorem update_never_raises:
  "update checker region st =
     Inr (st\<lparr>gauges := snd (update_try checker region (gauges st)),
            logged := logged st @
              (case fst (update_try checker region (gauges st)) of None \<Rightarrow> [] | Some e \<Rightarrow> [e]),
            observations := Suc (observations st)\<rparr>) \<and>
   (find_usage checker = Some e \<longrightarrow>
      update checker region st =
        Inr (st\<lparr>logged := logged st @ [e], observations := Suc (observations st)\<rparr>)) \<and>
   (\<exists>st1 st2. cycle k pre st = Inr st1 \<and> update (backend k) region st1 = Inr st2 \<and>
      cycle k (pre @ (region, backend) # post) st = cycle k post st2) \<and>
   (\<exists>st'. cycle k checkers st = Inr st' \<and>
      observations st' = observations st + length checkers) \<and>
   (\<exists>st1 st2. main_loop n k checkers st = Inr st1 \<and> cycle (k + n) checkers st1 = Inr st2 \<and>
      main_loop (Suc n) k checkers st = Inr st2) \<and>
   (\<exists>st'. main_loop n k checkers st = Inr st' \<and>
      observations st' = observations st + n * length checkers)"
proof (intro conjI impI)
  show "update checker region st =
     Inr (st\<lparr>gauges := snd (update_try checker region (gauges st)),
            logged := logged st @
              (case fst (update_try checker region (gauges st)) of None \<Rightarrow> [] | Some e \<Rightarrow> [e]),
            observations := Suc (observations st)\<rparr>)"
    by (rule update_eq)
next
  assume "find_usage checker = Some e"
  then show "update checker region st =
        Inr (st\<lparr>logged := logged st @ [e], observations := Suc (observations st)\<rparr>)"
    by (rule update_find_usage_raises)
next
  obtain st1 where st1: "cycle k pre st = Inr st1"
    using cycle_returns [of k pre st] by blast
  obtain st2 where st2: "update (backend k) region st1 = Inr st2"
    by (simp add: update_eq)
  have "cycle k (pre @ (region, backend) # post) st = cycle k post st2"
    by (simp add: cycle_append st1 st2)
  with st1 st2 show "\<exists>st1 st2. cycle k pre st = Inr st1 \<and> update (backend k) region st1 = Inr st2 \<and>
      cycle k (pre @ (region, backend) # post) st = cycle k post st2"
    by blast
next
  show "\<exists>st'. cycle k checkers st = Inr st' \<and>
      observations st' = observations st + length checkers"
    by (rule cycle_returns)
next
  obtain st1 where st1: "main_loop n k checkers st = Inr st1"
    using main_loop_returns [of n k checkers st] by blast
  obtain st2 where st2: "cycle (k + n) checkers st1 = Inr st2"
    using cycle_returns [of "k + n" checkers st1] by blast
  have "main_loop (Suc n) k checkers st = Inr st2"
    by (simp only: main_loop_Suc st1 st2 sum.case)
  with st1 st2 show "\<exists>st1 st2. main_loop n k checkers st = Inr st1 \<and>
      cycle (k + n) checkers st1 = Inr st2 \<and> main_loop (Suc n) k checkers st = Inr st2"
    by blast
next
  show "\<exists>st'. main_loop n k checkers st = Inr st' \<and>
      observations st' = observations st + n * length checkers"
    by (rule main_loop_returns)
qed

lemma failing_region_example:
  "map_sum id
     (\<lambda>st. (logged st, observations st,
        map_option (\<lambda>series. samples series [(''region'', ''us-west-2''), (''type'', ''limit'')])
          (gauges st ''s3_buckets'')))
     (cycle 0
        [(''us-east-1'', \<lambda>k. \<lparr>find_usage = Some (BackendError ''timeout''), get_limits = []\<rparr>),
         (''us-west-2'', \<lambda>k. \<lparr>find_usage = None,
            get_limits = [(''S3'', [(''Buckets'', \<lparr>get_limit = 100, get_current_usage = []\<rparr>)])]\<rparr>)]
        \<lparr>gauges = Map.empty, logged = [], observations = 0\<rparr>) =
   Inr ([BackendError ''timeout''], 2, Some (Some 100))"
  by code_simp

theorem update_never_raises_witness:
  "update \<lparr>find_usage = Some (BackendError ''timeout''), get_limits = []\<rparr> ''us-east-1''
     \<lparr>gauges = Map.empty, logged = [], observations = 0\<rparr> =
     Inr \<lparr>gauges = Map.empty, logged = [BackendError ''timeout''], observations = Suc 0\<rparr> \<and>
   map_sum id
     (\<lambda>st. (logged st, observations st,
        map_option (\<lambda>series. samples series [(''region'', ''us-west-2''), (''type'', ''limit'')])
          (gauges st ''s3_buckets'')))
     (cycle 0
        [(''us-east-1'', \<lambda>k. \<lparr>find_usage = Some (BackendError ''timeout''), get_limits = []\<rparr>),
         (''us-west-2'', \<lambda>k. \<lparr>find_usage = None,
            get_limits = [(''S3'', [(''Buckets'', \<lparr>get_limit = 100, get_current_usage = []\<rparr>)])]\<rparr>)]
        \<lparr>gauges = Map.empty, logged = [], observations = 0\<rparr>) =
   Inr ([BackendError ''timeout''], 2, Some (Some 100))"
proof -
  let ?ck = "\<lparr>find_usage = Some (BackendError ''timeout''), get_limits = []\<rparr>"
  let ?st = "\<lparr>gauges = Map.empty, logged = [], observations = 0\<rparr>"
  have h: "find_usage ?ck = Some (BackendError ''timeout'')" by simp
  from update_never_raises [of ?ck "''us-east-1''" ?st "BackendError ''timeout''"] h
  have "update ?ck ''us-east-1'' ?st =
      Inr (?st\<lparr>logged := logged ?st @ [BackendError ''timeout''],
              observations := Suc (observations ?st)\<rparr>)"
    by blast
  then have "update ?ck ''us-east-1'' ?st =
      Inr \<lparr>gauges = Map.empty, logged = [BackendError ''timeout''], observations = Suc 0\<rparr>"
    by simp
  with failing_region_example show ?thesis by blast
qed

text \<open>
  A refused write is an exception of the translation like any other. Here a limit of the
  general group has the fixed path of the EC2 on-demand gauge as its normalized path:
  the gauge is there with three labels, the write with two is refused, \<^verbatim>\<open>update\<close> logs
  the \<^verbatim>\<open>ValueError\<close> and returns, and what the on-demand group wrote before stays.
\<close>

lemma refused_write_example:
  "map_sum id
     (\<lambda>st. (logged st, observations st,
        map_option (\<lambda>series. (labelnames series,
            samples series [(''region'', ''r''), (''type'', ''limit''), (''instance_type'', ''total'')],
            samples series [(''region'', ''r''), (''type'', ''limit'')]))
          (gauges st ''ec2_running_on_demand_ec2_instances'')))
     (update
        \<lparr>find_usage = None,
         get_limits = [(''ec2'',
           [(''Running On-Demand EC2 instances'', \<lparr>get_limit = 5, get_current_usage = []\<rparr>),
            (''running on demand ec2 instances'', \<lparr>get_limit = 7, get_current_usage = []\<rparr>)])]\<rparr>
        ''r'' \<lparr>gauges = Map.empty, logged = [], observations = 0\<rparr>) =
   Inr ([ValueError], 1, Some ([''region'', ''type'', ''instance_type''], Some 5, None))"
  by code_simp

end
